theory Spec2Isabelle
  imports Main "HOL-Library.Word"
begin

unbundle bit_operations_syntax

section \<open>Data model of the terminal widget\<close>

text \<open>
  The terminal core of KorzeTerm is the second \<open>TerminalWidget\<close> class of \<open>build.h\<close>
  (the \<open>QWidget\<close> one). Its member variables become one record that every operation takes
  and returns. C++ \<open>int\<close> values are modelled as \<open>int\<close>; a \<open>char\<close> is a signed 8-bit
  value (\<open>8 word\<close>, read with \<open>sint\<close> where the source compares it with a number), a
  \<open>QChar\<close> is one UTF-16 code unit (\<open>16 word\<close>).
\<close>

type_synonym byte = "8 word"
type_synonym QChar = "16 word"

text \<open>
  A \<open>QColor\<close> built from three components is valid only when each lies in 0..255; the
  default-constructed colour is invalid.
\<close>

datatype QColor = Rgb int int int | InvalidColor

definition QColor :: "int \<Rightarrow> int \<Rightarrow> int \<Rightarrow> QColor" where
  "QColor r g b =
     (if 0 \<le> r \<and> r \<le> 255 \<and> 0 \<le> g \<and> g \<le> 255 \<and> 0 \<le> b \<and> b \<le> 255
      then Rgb r g b else InvalidColor)"

record TermChar =
  character :: QChar
  foreground :: QColor
  background :: QColor
  bold :: bool
  italic :: bool
  underline :: bool

text \<open>The default constructor \<open>TermChar()\<close>: a space in the default colours, no attribute.\<close>

definition TermChar :: TermChar where
  "TermChar = \<lparr> character = 0x20,
                foreground = QColor 235 219 178,
                background = QColor 40 40 40,
                bold = False, italic = False, underline = False \<rparr>"

datatype EscapeState = NoneState | Escape | Bracket | Parameter | OSC | OSCParameter

record TerminalWidget =
  m_rows :: int
  m_cols :: int
  m_buffer :: "TermChar list list"
  m_colorPalette :: "QColor list"
  m_defaultFg :: QColor
  m_defaultBg :: QColor
  m_currentFg :: QColor
  m_currentBg :: QColor
  m_cursorX :: int
  m_cursorY :: int
  m_savedCursorX :: int
  m_savedCursorY :: int
  m_cursorVisible :: bool
  m_pendingNewline :: bool
  m_bold :: bool
  m_italic :: bool
  m_underline :: bool
  m_utf8Remaining :: int
  m_utf8Buffer :: "byte list"
  m_escapeState :: EscapeState
  m_escapeSequence :: "byte list"

section \<open>Colour palette\<close>

text \<open>
  \<open>initializeColorPalette\<close>: the vector is resized to 256 (invalid) colours, sixteen
  entries are assigned one by one, three nested loops fill the colour cube through a
  running index, and a last loop fills the grey ramp.
\<close>

definition basic16 :: "QColor list \<Rightarrow> QColor list" where
  "basic16 p = p
     [0 := QColor 40 40 40, 1 := QColor 204 36 29, 2 := QColor 152 151 26,
      3 := QColor 215 153 33, 4 := QColor 69 133 136, 5 := QColor 177 98 134,
      6 := QColor 104 157 106, 7 := QColor 168 153 132,
      8 := QColor 146 131 116, 9 := QColor 251 73 52, 10 := QColor 184 187 38,
      11 := QColor 250 189 47, 12 := QColor 131 165 152, 13 := QColor 211 134 155,
      14 := QColor 142 192 124, 15 := QColor 235 219 178]"

definition cube_entry :: "nat \<Rightarrow> nat \<Rightarrow> nat \<Rightarrow> QColor" where
  "cube_entry r g b =
     (let red = (if r = 0 then 0 else int r * 40 + 55);
          green = (if g = 0 then 0 else int g * 40 + 55);
          blue = (if b = 0 then 0 else int b * 40 + 55)
      in QColor red green blue)"

definition cube_loop :: "QColor list \<times> nat \<Rightarrow> QColor list \<times> nat" where
  "cube_loop =
     fold (\<lambda>r. fold (\<lambda>g. fold (\<lambda>b (p, index). (p[index := cube_entry r g b], index + 1))
                               [0..<6]) [0..<6]) [0..<6]"

definition gray_loop :: "QColor list \<Rightarrow> QColor list" where
  "gray_loop =
     fold (\<lambda>i p. (let v = int i * 10 + 8 in p[232 + i := QColor v v v])) [0..<24]"

definition initializeColorPalette :: "QColor list" where
  "initializeColorPalette =
     gray_loop (fst (cube_loop (basic16 (replicate 256 InvalidColor), 16)))"

section \<open>Select Graphic Rendition\<close>

text \<open>
  \<open>processSGR\<close> walks the parameter vector with an index \<open>i\<close>. The model keeps the
  parameters from position \<open>i\<close> on: \<open>param\<close> is \<open>params[i]\<close> and \<open>rest\<close> the
  parameters after it, so \<open>i + 2 < params.size()\<close> reads \<open>2 \<le> length rest\<close>,
  \<open>params[i + 1]\<close> is \<open>rest ! 0\<close>, and \<open>i += 2\<close> drops two elements of \<open>rest\<close>.
  \<open>sgr_case\<close> is the body of the \<open>switch\<close>: the new state and the number of extra
  parameters consumed.
\<close>

definition sgr_case :: "TerminalWidget \<Rightarrow> int \<Rightarrow> int list \<Rightarrow> TerminalWidget \<times> nat" where
  "sgr_case t param rest =
    (if param = 0 then
       (t\<lparr>m_currentFg := m_defaultFg t, m_currentBg := m_defaultBg t,
          m_bold := False, m_italic := False, m_underline := False\<rparr>, 0)
     else if param = 1 then (t\<lparr>m_bold := True\<rparr>, 0)
     else if param = 3 then (t\<lparr>m_italic := True\<rparr>, 0)
     else if param = 4 then (t\<lparr>m_underline := True\<rparr>, 0)
     else if param = 22 then (t\<lparr>m_bold := False\<rparr>, 0)
     else if param = 23 then (t\<lparr>m_italic := False\<rparr>, 0)
     else if param = 24 then (t\<lparr>m_underline := False\<rparr>, 0)
     else if 30 \<le> param \<and> param \<le> 37 then
       (t\<lparr>m_currentFg := m_colorPalette t ! nat (param - 30)\<rparr>, 0)
     else if param = 38 then
       (if 2 \<le> length rest \<and> rest ! 0 = 5 then
          (let colorIndex = rest ! 1 in
           (if 0 \<le> colorIndex \<and> colorIndex < 256
            then t\<lparr>m_currentFg := m_colorPalette t ! nat colorIndex\<rparr> else t, 2))
        else if 4 \<le> length rest \<and> rest ! 0 = 2 then
          (t\<lparr>m_currentFg := QColor (rest ! 1) (rest ! 2) (rest ! 3)\<rparr>, 4)
        else (t, 0))
     else if param = 39 then (t\<lparr>m_currentFg := m_defaultFg t\<rparr>, 0)
     else if 40 \<le> param \<and> param \<le> 47 then
       (t\<lparr>m_currentBg := m_colorPalette t ! nat (param - 40)\<rparr>, 0)
     else if param = 48 then
       (if 2 \<le> length rest \<and> rest ! 0 = 5 then
          (let colorIndex = rest ! 1 in
           (if 0 \<le> colorIndex \<and> colorIndex < 256
            then t\<lparr>m_currentBg := m_colorPalette t ! nat colorIndex\<rparr> else t, 2))
        else if 4 \<le> length rest \<and> rest ! 0 = 2 then
          (t\<lparr>m_currentBg := QColor (rest ! 1) (rest ! 2) (rest ! 3)\<rparr>, 4)
        else (t, 0))
     else if param = 49 then (t\<lparr>m_currentBg := m_defaultBg t\<rparr>, 0)
     else if 90 \<le> param \<and> param \<le> 97 then
       (t\<lparr>m_currentFg := m_colorPalette t ! nat (param - 90 + 8)\<rparr>, 0)
     else if 100 \<le> param \<and> param \<le> 107 then
       (t\<lparr>m_currentBg := m_colorPalette t ! nat (param - 100 + 8)\<rparr>, 0)
     else (t, 0))"

fun processSGR :: "TerminalWidget \<Rightarrow> int list \<Rightarrow> TerminalWidget" where
  "processSGR t [] = t"
| "processSGR t (param # rest) =
     processSGR (fst (sgr_case t param rest)) (drop (snd (sgr_case t param rest)) rest)"


section \<open>Screen buffer\<close>

text \<open>
  The grid is a vector of rows. The constructor and \<open>resizeBuffer\<close> build it with
  \<open>m_rows\<close> rows of \<open>m_cols\<close> cells and nothing else changes its shape; \<open>grid_ok\<close>
  states that shape. Loops bounded by \<open>m_rows\<close> and \<open>m_cols\<close> stay inside the vectors
  of such a grid.
\<close>

definition grid_ok :: "TerminalWidget \<Rightarrow> bool" where
  "grid_ok t \<longleftrightarrow>
     1 \<le> m_rows t \<and> 1 \<le> m_cols t \<and> length (m_buffer t) = nat (m_rows t) \<and>
     (\<forall>row \<in> set (m_buffer t). length row = nat (m_cols t))"

text \<open>
  An access \<open>m_buffer[y][x]\<close> at the cursor has no bounds check in the source:
  \<open>QVector::operator[]\<close> asserts the index in a debug build and is undefined otherwise.
  The model makes such an access a failure (\<open>None\<close>) when the index is outside the vectors.
\<close>

definition inBounds :: "TerminalWidget \<Rightarrow> int \<Rightarrow> int \<Rightarrow> bool" where
  "inBounds t y x \<longleftrightarrow>
     0 \<le> y \<and> y < int (length (m_buffer t)) \<and>
     0 \<le> x \<and> x < int (length (m_buffer t ! nat y))"

definition updCell ::
  "TerminalWidget \<Rightarrow> int \<Rightarrow> int \<Rightarrow> (TermChar \<Rightarrow> TermChar) \<Rightarrow> TerminalWidget option" where
  "updCell t y x f =
     (if inBounds t y x
      then Some (t\<lparr>m_buffer := (m_buffer t)
                  [nat y := (m_buffer t ! nat y)[nat x := f (m_buffer t ! nat y ! nat x)]]\<rparr>)
      else None)"

text \<open>The six assignments that store a glyph with the current attributes.\<close>

definition storeChar :: "TerminalWidget \<Rightarrow> QChar \<Rightarrow> TerminalWidget option" where
  "storeChar t ch =
     updCell t (m_cursorY t) (m_cursorX t)
       (\<lambda>cell. cell\<lparr>character := ch, foreground := m_currentFg t,
                     background := m_currentBg t, bold := m_bold t,
                     italic := m_italic t, underline := m_underline t\<rparr>)"

definition scrollUp :: "TerminalWidget \<Rightarrow> TerminalWidget" where
  "scrollUp t =
     (let moved = fold (\<lambda>y b. b[y := b ! (y + 1)]) [0..<nat (m_rows t - 1)] (m_buffer t);
          bottom = nat (m_rows t - 1);
          cleared = fold (\<lambda>x b. b[bottom := (b ! bottom)[x := TermChar]])
                      [0..<nat (m_cols t)] moved
      in t\<lparr>m_buffer := cleared\<rparr>)"

text \<open>
  \<open>m_cursorY++\<close> followed by the scroll test; the source repeats these lines for the line
  feed, the tab and both character writers.
\<close>

definition nextRow :: "TerminalWidget \<Rightarrow> TerminalWidget" where
  "nextRow t =
     (let t1 = t\<lparr>m_cursorY := m_cursorY t + 1\<rparr>
      in if m_cursorY t1 \<ge> m_rows t1
         then (scrollUp t1)\<lparr>m_cursorY := m_rows t1 - 1\<rparr>
         else t1)"

text \<open>The line wrapping block \<open>if (m_cursorX >= m_cols) { m_cursorX = 0; ... }\<close>.\<close>

definition wrapLine :: "TerminalWidget \<Rightarrow> TerminalWidget" where
  "wrapLine t = (if m_cursorX t \<ge> m_cols t then nextRow (t\<lparr>m_cursorX := 0\<rparr>) else t)"

fun clearCells :: "int \<Rightarrow> int list \<Rightarrow> TerminalWidget \<Rightarrow> TerminalWidget option" where
  "clearCells y [] t = Some t"
| "clearCells y (x # xs) t =
     (case updCell t y x (\<lambda>_. TermChar) of
        None \<Rightarrow> None
      | Some t' \<Rightarrow> clearCells y xs t')"

definition clearLine :: "TerminalWidget \<Rightarrow> int \<Rightarrow> int \<Rightarrow> int \<Rightarrow> TerminalWidget option" where
  "clearLine t row startCol endCol = clearCells row [startCol..endCol] t"

fun clearRows ::
  "int \<Rightarrow> int \<Rightarrow> int \<Rightarrow> int \<Rightarrow> int list \<Rightarrow> TerminalWidget \<Rightarrow> TerminalWidget option" where
  "clearRows startRow startCol endRow endCol [] t = Some t"
| "clearRows startRow startCol endRow endCol (y # ys) t =
     (case clearCells y [(if y = startRow then startCol else 0) ..
                         (if y = endRow then endCol else m_cols t - 1)] t of
        None \<Rightarrow> None
      | Some t' \<Rightarrow> clearRows startRow startCol endRow endCol ys t')"

definition clearScreen ::
  "TerminalWidget \<Rightarrow> int \<Rightarrow> int \<Rightarrow> int \<Rightarrow> int \<Rightarrow> TerminalWidget option" where
  "clearScreen t startRow startCol endRow endCol =
     clearRows startRow startCol endRow endCol [startRow..endRow] t"

text \<open>
  \<open>resizeBuffer\<close>: a fresh grid of default cells, the overlapping rectangle copied cell
  by cell, the dimensions replaced, the cursor clamped. The saved cursor is not touched.
\<close>

definition copyRow :: "nat \<Rightarrow> TermChar list \<Rightarrow> TermChar list \<Rightarrow> TermChar list" where
  "copyRow n old new = fold (\<lambda>x r. r[x := old ! x]) [0..<n] new"

definition resizeBuffer :: "TerminalWidget \<Rightarrow> int \<Rightarrow> int \<Rightarrow> TerminalWidget" where
  "resizeBuffer t newRows newCols =
     (let oldRows = m_rows t;
          oldCols = m_cols t;
          newBuffer = replicate (nat newRows) (replicate (nat newCols) TermChar);
          copied = fold (\<lambda>y b. b[y := copyRow (nat (min oldCols newCols)) (m_buffer t ! y) (b ! y)])
                     [0..<nat (min oldRows newRows)] newBuffer;
          t1 = t\<lparr>m_rows := newRows, m_cols := newCols, m_buffer := copied\<rparr>
      in t1\<lparr>m_cursorX := min (m_cursorX t1) (m_cols t1 - 1),
            m_cursorY := min (m_cursorY t1) (m_rows t1 - 1)\<rparr>)"

section \<open>Character processing\<close>

text \<open>C++ integer division truncates towards zero.\<close>

definition cdiv :: "int \<Rightarrow> int \<Rightarrow> int" where
  "cdiv a b = sgn a * sgn b * (\<bar>a\<bar> div \<bar>b\<bar>)"

text \<open>
  \<open>processRegularChar\<close>. The \<open>char\<close> is signed, so \<open>c >= 32\<close> is false for every byte
  from 0x80 up; \<open>QChar(c)\<close> is the Latin-1 code unit of the byte.
\<close>

definition processRegularChar :: "TerminalWidget \<Rightarrow> byte \<Rightarrow> TerminalWidget option" where
  "processRegularChar t c =
    (if c = 0x0D then
       (let t1 = t\<lparr>m_cursorX := 0\<rparr>
        in Some (if m_pendingNewline t1 then t1\<lparr>m_pendingNewline := False\<rparr> else t1))
     else if c = 0x0A then
       (if m_pendingNewline t then Some (t\<lparr>m_pendingNewline := False\<rparr>)
        else Some ((nextRow (t\<lparr>m_pendingNewline := True\<rparr>))\<lparr>m_cursorX := 0\<rparr>))
     else if c = 0x08 then
       Some (if m_cursorX t > 0 then t\<lparr>m_cursorX := m_cursorX t - 1\<rparr> else t)
     else if c = 0x09 then
       (let t1 = t\<lparr>m_cursorX := cdiv (m_cursorX t + 8) 8 * 8\<rparr>
        in Some (if m_cursorX t1 \<ge> m_cols t1 then nextRow (t1\<lparr>m_cursorX := 0\<rparr>) else t1))
     else if c = 0x07 then Some t
     else if sint c \<ge> 32 then
       (case storeChar (t\<lparr>m_pendingNewline := False\<rparr>) (ucast c) of
          None \<Rightarrow> None
        | Some t1 \<Rightarrow> Some (wrapLine (t1\<lparr>m_cursorX := m_cursorX t1 + 1\<rparr>)))
     else Some t)"


section \<open>UTF-8 sequences\<close>

text \<open>
  Modelled from the spec: \<open>QString::fromUtf8\<close> is Qt library code, not part of the
  repository. The spec says that the buffered bytes of a sequence decode to one Unicode
  scalar. The model is the standard decoder: a lead byte with its continuation bytes
  gives the scalar, stored as UTF-16 (one code unit up to U+FFFF, a surrogate pair above);
  an overlong form, a surrogate, a value above U+10FFFF, a stray or missing continuation
  byte gives U+FFFD for the offending byte, and decoding goes on with the next byte.
\<close>

fun decodeOne :: "byte list \<Rightarrow> (nat \<times> nat) option" where
  "decodeOne [] = None"
| "decodeOne (b0 # bs) =
    (if (b0 AND 0xE0) = 0xC0 then
       (case bs of
          b1 # _ \<Rightarrow>
            (let cp = unat (b0 AND 0x1F) * 64 + unat (b1 AND 0x3F)
             in if (b1 AND 0xC0) = 0x80 \<and> 0x80 \<le> cp then Some (cp, 2) else None)
        | _ \<Rightarrow> None)
     else if (b0 AND 0xF0) = 0xE0 then
       (case bs of
          b1 # b2 # _ \<Rightarrow>
            (let cp = unat (b0 AND 0x0F) * 4096 + unat (b1 AND 0x3F) * 64 + unat (b2 AND 0x3F)
             in if (b1 AND 0xC0) = 0x80 \<and> (b2 AND 0xC0) = 0x80 \<and> 0x800 \<le> cp \<and>
                   \<not> (0xD800 \<le> cp \<and> cp \<le> 0xDFFF)
                then Some (cp, 3) else None)
        | _ \<Rightarrow> None)
     else if (b0 AND 0xF8) = 0xF0 then
       (case bs of
          b1 # b2 # b3 # _ \<Rightarrow>
            (let cp = unat (b0 AND 0x07) * 262144 + unat (b1 AND 0x3F) * 4096 +
                      unat (b2 AND 0x3F) * 64 + unat (b3 AND 0x3F)
             in if (b1 AND 0xC0) = 0x80 \<and> (b2 AND 0xC0) = 0x80 \<and> (b3 AND 0xC0) = 0x80 \<and>
                   0x10000 \<le> cp \<and> cp \<le> 0x10FFFF
                then Some (cp, 4) else None)
        | _ \<Rightarrow> None)
     else None)"

definition utf16 :: "nat \<Rightarrow> QChar list" where
  "utf16 cp =
     (if cp < 0x10000 then [of_nat cp]
      else [of_nat (0xD800 + (cp - 0x10000) div 1024),
            of_nat (0xDC00 + (cp - 0x10000) mod 1024)])"

fun fromUtf8 :: "byte list \<Rightarrow> QChar list" where
  "fromUtf8 [] = []"
| "fromUtf8 (b # bs) =
     (if (b AND 0x80) = 0 then ucast b # fromUtf8 bs
      else (case decodeOne (b # bs) of
              Some (cp, n) \<Rightarrow> utf16 cp @ fromUtf8 (drop (n - 1) bs)
            | None \<Rightarrow> 0xFFFD # fromUtf8 bs))"

text \<open>
  The width test of \<open>processUtf8Sequence\<close>, on \<open>ch.unicode()\<close> widened to \<open>uint\<close>.
\<close>

definition isWide :: "nat \<Rightarrow> bool" where
  "isWide unicode \<longleftrightarrow>
     (unicode \<ge> 0x3000 \<and> unicode \<le> 0x9FFF) \<or>
     (unicode \<ge> 0xAC00 \<and> unicode \<le> 0xD7AF) \<or>
     (unicode \<ge> 0xF900 \<and> unicode \<le> 0xFAFF) \<or>
     (unicode \<ge> 0xFF00 \<and> unicode \<le> 0xFFEF) \<or>
     (unicode \<ge> 0x20000 \<and> unicode \<le> 0x2FFFF)"

definition processUtf8Sequence :: "TerminalWidget \<Rightarrow> byte list \<Rightarrow> TerminalWidget option" where
  "processUtf8Sequence t utf8Bytes =
    (let str = fromUtf8 utf8Bytes in
     if str = [] then Some t
     else
       (let ch = str ! 0 in
        case storeChar t ch of
          None \<Rightarrow> None
        | Some t1 \<Rightarrow>
            (let t2 = t1\<lparr>m_cursorX := m_cursorX t1 + 1\<rparr>;
                 unicode = unat ch
             in if isWide unicode then
                  (if m_cursorX t2 < m_cols t2 then
                     (case updCell t2 (m_cursorY t2) (m_cursorX t2)
                             (\<lambda>cell. cell\<lparr>character := 0x20\<rparr>) of
                        None \<Rightarrow> None
                      | Some t3 \<Rightarrow> Some (wrapLine (t3\<lparr>m_cursorX := m_cursorX t3 + 1\<rparr>)))
                   else Some (wrapLine t2))
                else Some (wrapLine t2))))"

section \<open>Control sequences\<close>

text \<open>
  \<open>QString::split\<close> keeps empty fields, so the list it returns is never empty.
\<close>

fun split :: "byte \<Rightarrow> byte list \<Rightarrow> byte list list" where
  "split sep [] = [[]]"
| "split sep (c # cs) =
     (if c = sep then [] # split sep cs
      else (case split sep cs of
              [] \<Rightarrow> [[c]]
            | p # ps \<Rightarrow> (c # p) # ps))"

text \<open>
  \<open>QString::toInt\<close> on the texts the parser can collect (digits, space, and the marks
  \<open>?\<close>, \<open>>\<close>, \<open>=\<close>): surrounding spaces are ignored, and the conversion succeeds when what
  remains is a non-empty run of decimal digits whose value fits an \<open>int\<close>.
\<close>

definition INT_MAX :: int where
  "INT_MAX = 2147483647"

definition INT_MIN :: int where
  "INT_MIN = - 2147483648"

definition isDigit :: "byte \<Rightarrow> bool" where
  "isDigit c \<longleftrightarrow> sint c \<ge> 48 \<and> sint c \<le> 57"

definition trimmed :: "byte list \<Rightarrow> byte list" where
  "trimmed s = rev (dropWhile (\<lambda>c. c = 0x20) (rev (dropWhile (\<lambda>c. c = 0x20) s)))"

definition decimal :: "byte list \<Rightarrow> int" where
  "decimal s = foldl (\<lambda>acc c. acc * 10 + (sint c - 48)) 0 s"

definition toInt :: "byte list \<Rightarrow> bool \<times> int" where
  "toInt s =
     (let d = trimmed s
      in if d \<noteq> [] \<and> list_all isDigit d \<and> decimal d \<le> INT_MAX
         then (True, decimal d) else (False, 0))"

text \<open>
  Signed overflow is undefined in C++. Where a parameter of a control sequence is added
  to or subtracted from the cursor, a result outside the \<open>int\<close> range is a failure.
\<close>

definition checked :: "int \<Rightarrow> int option" where
  "checked v = (if INT_MIN \<le> v \<and> v \<le> INT_MAX then Some v else None)"

definition qBound :: "int \<Rightarrow> int \<Rightarrow> int \<Rightarrow> int" where
  "qBound lo v hi = max lo (min hi v)"

definition parseParams :: "byte list \<Rightarrow> bool \<times> int list" where
  "parseParams parameters =
     (let privateMode = (parameters \<noteq> [] \<and> (hd parameters = 0x3F \<or> hd parameters = 0x3E));
          cleanParams = (if privateMode then drop 1 parameters else parameters);
          paramList = split 0x3B cleanParams;
          params = map (\<lambda>param. (let (ok, v) = toInt param in if ok then v else 0)) paramList
      in (privateMode, if params = [] then [0] else params))"

definition processEscapeSequence ::
  "TerminalWidget \<Rightarrow> byte \<Rightarrow> byte list \<Rightarrow> TerminalWidget option" where
  "processEscapeSequence t finalChar parameters =
    (let (privateMode, params) = parseParams parameters in
     if finalChar = 0x6D then Some (processSGR t params)
     else if finalChar = 0x48 \<or> finalChar = 0x66 then
       (if length params \<ge> 2 then
          Some (t\<lparr>m_cursorY := qBound 0 (params ! 0 - 1) (m_rows t - 1),
                  m_cursorX := qBound 0 (params ! 1 - 1) (m_cols t - 1)\<rparr>)
        else Some (t\<lparr>m_cursorX := 0, m_cursorY := 0\<rparr>))
     else if finalChar = 0x41 then
       (case checked (m_cursorY t - max 1 (params ! 0)) of
          None \<Rightarrow> None
        | Some v \<Rightarrow> Some (t\<lparr>m_cursorY := max 0 v\<rparr>))
     else if finalChar = 0x42 then
       (case checked (m_cursorY t + max 1 (params ! 0)) of
          None \<Rightarrow> None
        | Some v \<Rightarrow> Some (t\<lparr>m_cursorY := min (m_rows t - 1) v\<rparr>))
     else if finalChar = 0x43 then
       (case checked (m_cursorX t + max 1 (params ! 0)) of
          None \<Rightarrow> None
        | Some v \<Rightarrow> Some (t\<lparr>m_cursorX := min (m_cols t - 1) v\<rparr>))
     else if finalChar = 0x44 then
       (case checked (m_cursorX t - max 1 (params ! 0)) of
          None \<Rightarrow> None
        | Some v \<Rightarrow> Some (t\<lparr>m_cursorX := max 0 v\<rparr>))
     else if finalChar = 0x47 then
       Some (t\<lparr>m_cursorX := qBound 0 (params ! 0 - 1) (m_cols t - 1)\<rparr>)
     else if finalChar = 0x4A then
       (if params ! 0 = 0 then
          clearScreen t (m_cursorY t) (m_cursorX t) (m_rows t - 1) (m_cols t - 1)
        else if params ! 0 = 1 then clearScreen t 0 0 (m_cursorY t) (m_cursorX t)
        else if params ! 0 = 2 \<or> params ! 0 = 3 then
          clearScreen t 0 0 (m_rows t - 1) (m_cols t - 1)
        else Some t)
     else if finalChar = 0x4B then
       (if params ! 0 = 0 then clearLine t (m_cursorY t) (m_cursorX t) (m_cols t - 1)
        else if params ! 0 = 1 then clearLine t (m_cursorY t) 0 (m_cursorX t)
        else if params ! 0 = 2 then clearLine t (m_cursorY t) 0 (m_cols t - 1)
        else Some t)
     else if finalChar = 0x73 then
       Some (t\<lparr>m_savedCursorX := m_cursorX t, m_savedCursorY := m_cursorY t\<rparr>)
     else if finalChar = 0x75 then
       Some (t\<lparr>m_cursorX := m_savedCursorX t, m_cursorY := m_savedCursorY t\<rparr>)
     else if finalChar = 0x6C \<or> finalChar = 0x68 then
       (if privateMode
        then Some (fold (\<lambda>param s. if param = 25
                                    then s\<lparr>m_cursorVisible := (finalChar = 0x68)\<rparr> else s)
                        params t)
        else Some t)
     else if finalChar = 0x64 then
       Some (t\<lparr>m_cursorY := qBound 0 (params ! 0 - 1) (m_rows t - 1)\<rparr>)
     else Some t)"

text \<open>
  \<open>processChar\<close>: the escape state machine. Appending a \<open>char\<close> to the \<open>QString\<close>
  stores its Latin-1 code unit; the model keeps the byte.
\<close>

definition isParamStart :: "byte \<Rightarrow> bool" where
  "isParamStart c \<longleftrightarrow>
     (sint c \<ge> 48 \<and> sint c \<le> 57) \<or> c = 0x3B \<or> c = 0x3F \<or> c = 0x20 \<or> c = 0x3E"

definition processChar :: "TerminalWidget \<Rightarrow> byte \<Rightarrow> TerminalWidget option" where
  "processChar t c =
    (case m_escapeState t of
       NoneState \<Rightarrow>
         (if c = 0x1B then Some (t\<lparr>m_escapeState := Escape, m_escapeSequence := []\<rparr>)
          else processRegularChar t c)
     | Escape \<Rightarrow>
         (if c = 0x5B then Some (t\<lparr>m_escapeState := Bracket\<rparr>)
          else if c = 0x5D then Some (t\<lparr>m_escapeState := OSC, m_escapeSequence := []\<rparr>)
          else if c = 0x25 then Some t
          else processRegularChar (t\<lparr>m_escapeState := NoneState\<rparr>) c)
     | Bracket \<Rightarrow>
         (if isParamStart c
          then Some (t\<lparr>m_escapeSequence := m_escapeSequence t @ [c],
                       m_escapeState := Parameter\<rparr>)
          else (case processEscapeSequence t c (m_escapeSequence t) of
                  None \<Rightarrow> None
                | Some t1 \<Rightarrow> Some (t1\<lparr>m_escapeState := NoneState\<rparr>)))
     | Parameter \<Rightarrow>
         (if isParamStart c \<or> c = 0x3D
          then Some (t\<lparr>m_escapeSequence := m_escapeSequence t @ [c]\<rparr>)
          else (case processEscapeSequence t c (m_escapeSequence t) of
                  None \<Rightarrow> None
                | Some t1 \<Rightarrow> Some (t1\<lparr>m_escapeState := NoneState\<rparr>)))
     | OSC \<Rightarrow>
         (if sint c \<ge> 48 \<and> sint c \<le> 57
          then Some (t\<lparr>m_escapeSequence := m_escapeSequence t @ [c]\<rparr>)
          else if c = 0x3B
          then Some (t\<lparr>m_escapeSequence := m_escapeSequence t @ [c],
                       m_escapeState := OSCParameter\<rparr>)
          else Some (t\<lparr>m_escapeState := NoneState\<rparr>))
     | OSCParameter \<Rightarrow>
         (if c = 0x07 \<or>
             (c = 0x5C \<and> m_escapeSequence t \<noteq> [] \<and> last (m_escapeSequence t) = 0x1B)
          then Some (t\<lparr>m_escapeState := NoneState\<rparr>)
          else Some (t\<lparr>m_escapeSequence := m_escapeSequence t @ [c]\<rparr>)))"

section \<open>Byte stream\<close>

text \<open>
  One turn of the \<open>while\<close> loop of \<open>processOutput\<close>, and the loop over the bytes of a
  chunk. The masks only look at the low eight bits, so they are taken on the byte.
\<close>

definition processByte :: "TerminalWidget \<Rightarrow> byte \<Rightarrow> TerminalWidget option" where
  "processByte t c =
    (if m_utf8Remaining t > 0 \<and> (c AND 0xC0) = 0x80 then
       (let t1 = t\<lparr>m_utf8Buffer := m_utf8Buffer t @ [c],
                   m_utf8Remaining := m_utf8Remaining t - 1\<rparr>
        in if m_utf8Remaining t1 = 0 then
             (case processUtf8Sequence t1 (m_utf8Buffer t1) of
                None \<Rightarrow> None
              | Some t2 \<Rightarrow> Some (t2\<lparr>m_utf8Buffer := []\<rparr>))
           else Some t1)
     else
       (let t0 = (if m_utf8Remaining t > 0
                  then t\<lparr>m_utf8Remaining := 0, m_utf8Buffer := []\<rparr> else t)
        in if (c AND 0x80) \<noteq> 0 then
             (if (c AND 0xE0) = 0xC0 then Some (t0\<lparr>m_utf8Remaining := 1, m_utf8Buffer := [c]\<rparr>)
              else if (c AND 0xF0) = 0xE0
              then Some (t0\<lparr>m_utf8Remaining := 2, m_utf8Buffer := [c]\<rparr>)
              else if (c AND 0xF8) = 0xF0
              then Some (t0\<lparr>m_utf8Remaining := 3, m_utf8Buffer := [c]\<rparr>)
              else processChar t0 c)
           else processChar t0 c))"

fun processOutput :: "TerminalWidget \<Rightarrow> byte list \<Rightarrow> TerminalWidget option" where
  "processOutput t [] = Some t"
| "processOutput t (c # data) =
     (case processByte t c of
        None \<Rightarrow> None
      | Some t' \<Rightarrow> processOutput t' data)"

section \<open>Initial state\<close>

text \<open>The fields as the constructor and the member initialisers leave them.\<close>

definition TerminalWidget :: TerminalWidget where
  "TerminalWidget =
     \<lparr> m_rows = 24, m_cols = 80,
       m_buffer = replicate 24 (replicate 80 TermChar),
       m_colorPalette = initializeColorPalette,
       m_defaultFg = QColor 235 219 178, m_defaultBg = QColor 40 40 40,
       m_currentFg = QColor 235 219 178, m_currentBg = QColor 40 40 40,
       m_cursorX = 0, m_cursorY = 0, m_savedCursorX = 0, m_savedCursorY = 0,
       m_cursorVisible = True, m_pendingNewline = False,
       m_bold = False, m_italic = False, m_underline = False,
       m_utf8Remaining = 0, m_utf8Buffer = [],
       m_escapeState = NoneState, m_escapeSequence = [] \<rparr>"

section \<open>Notions used to state the properties\<close>

text \<open>The sixteen fixed colours: eight standard ones and eight bright ones.\<close>

definition fixed16 :: "QColor list" where
  "fixed16 = [
      Rgb 40 40 40, Rgb 204 36 29, Rgb 152 151 26, Rgb 215 153 33, Rgb 69 133 136,
      Rgb 177 98 134, Rgb 104 157 106, Rgb 168 153 132, Rgb 146 131 116, Rgb 251 73 52,
      Rgb 184 187 38, Rgb 250 189 47, Rgb 131 165 152, Rgb 211 134 155, Rgb 142 192 124,
      Rgb 235 219 178]"

text \<open>
  The component of a cube colour for a cube digit, and the colour of a palette index in
  closed form.
\<close>

definition cube_component :: "nat \<Rightarrow> int" where
  "cube_component n = (if n = 0 then 0 else 55 + 40 * int n)"

definition palette_at :: "nat \<Rightarrow> QColor" where
  "palette_at i =
     (if i < 16 then fixed16 ! i
      else if i < 232 then
        Rgb (cube_component ((i - 16) div 36)) (cube_component ((i - 16) div 6 mod 6))
            (cube_component ((i - 16) mod 6))
      else Rgb (8 + 10 * int (i - 232)) (8 + 10 * int (i - 232)) (8 + 10 * int (i - 232)))"

text \<open>The attribute state, its default value, and the style parameters of SGR.\<close>

definition attrs :: "TerminalWidget \<Rightarrow> QColor \<times> QColor \<times> bool \<times> bool \<times> bool" where
  "attrs t = (m_currentFg t, m_currentBg t, m_bold t, m_italic t, m_underline t)"

definition default_attrs :: "TerminalWidget \<Rightarrow> QColor \<times> QColor \<times> bool \<times> bool \<times> bool" where
  "default_attrs t = (m_defaultFg t, m_defaultBg t, False, False, False)"

definition style_params :: "int set" where
  "style_params = {1, 3, 4, 22, 23, 24}"

text \<open>The cursor lies on a cell of the grid.\<close>

definition cursor_ok :: "TerminalWidget \<Rightarrow> bool" where
  "cursor_ok t \<longleftrightarrow>
     0 \<le> m_cursorY t \<and> m_cursorY t < m_rows t \<and> 0 \<le> m_cursorX t \<and> m_cursorX t < m_cols t"

text \<open>
  The bit masks of the byte decoder as ranges of the unsigned value, the low masks as
  remainders, and the signed reading of a byte.
\<close>

definition byte_law :: "byte \<Rightarrow> bool" where
  "byte_law b \<longleftrightarrow>
     ((b AND 0x80) = 0 \<longleftrightarrow> unat b < 0x80) \<and>
     ((b AND 0xC0) = 0x80 \<longleftrightarrow> 0x80 \<le> unat b \<and> unat b < 0xC0) \<and>
     ((b AND 0xE0) = 0xC0 \<longleftrightarrow> 0xC0 \<le> unat b \<and> unat b < 0xE0) \<and>
     ((b AND 0xF0) = 0xE0 \<longleftrightarrow> 0xE0 \<le> unat b \<and> unat b < 0xF0) \<and>
     ((b AND 0xF8) = 0xF0 \<longleftrightarrow> 0xF0 \<le> unat b \<and> unat b < 0xF8) \<and>
     unat (b AND 0x3F) = unat b mod 64 \<and>
     unat (b AND 0x1F) = unat b mod 32 \<and>
     unat (b AND 0x0F) = unat b mod 16 \<and>
     unat (b AND 0x07) = unat b mod 8 \<and>
     sint b = (if unat b < 0x80 then int (unat b) else int (unat b) - 256)"

text \<open>
  A printable ASCII character, and the cell that a write of a glyph stores under the
  current attributes.
\<close>

definition printable :: "byte \<Rightarrow> bool" where
  "printable c \<longleftrightarrow> 32 \<le> sint c \<and> sint c \<le> 126"

definition glyphCell :: "TerminalWidget \<Rightarrow> QChar \<Rightarrow> TermChar" where
  "glyphCell t ch =
     \<lparr> character = ch, foreground = m_currentFg t, background = m_currentBg t,
       bold = m_bold t, italic = m_italic t, underline = m_underline t \<rparr>"

text \<open>
  Unicode scalar values and their UTF-8 encoding, the well-formed byte sequences of the
  decoder claims.
\<close>

definition scalar :: "nat \<Rightarrow> bool" where
  "scalar cp \<longleftrightarrow> cp \<le> 0x10FFFF \<and> \<not> (0xD800 \<le> cp \<and> cp \<le> 0xDFFF)"

definition utf8_encode :: "nat \<Rightarrow> byte list" where
  "utf8_encode cp =
     (if cp < 0x80 then [of_nat cp]
      else if cp < 0x800 then [of_nat (0xC0 + cp div 64), of_nat (0x80 + cp mod 64)]
      else if cp < 0x10000 then
        [of_nat (0xE0 + cp div 4096), of_nat (0x80 + cp div 64 mod 64),
         of_nat (0x80 + cp mod 64)]
      else
        [of_nat (0xF0 + cp div 262144), of_nat (0x80 + cp div 4096 mod 64),
         of_nat (0x80 + cp div 64 mod 64), of_nat (0x80 + cp mod 64)])"

text \<open>
  The East-Asian wide ranges that lie in the Basic Multilingual Plane, where a scalar is
  one UTF-16 code unit.
\<close>

definition wideBmp :: "nat \<Rightarrow> bool" where
  "wideBmp cp \<longleftrightarrow>
     (0x3000 \<le> cp \<and> cp \<le> 0x9FFF) \<or> (0xAC00 \<le> cp \<and> cp \<le> 0xD7AF) \<or>
     (0xF900 \<le> cp \<and> cp \<le> 0xFAFF) \<or> (0xFF00 \<le> cp \<and> cp \<le> 0xFFEF)"

text \<open>
  The grid after a glyph is stored at the cursor, and the grid after the glyph is stored
  and the glyph of the cell to its right is replaced by a space.
\<close>

definition glyphAt :: "TerminalWidget \<Rightarrow> QChar \<Rightarrow> TermChar list list" where
  "glyphAt t ch =
     (m_buffer t)[nat (m_cursorY t) :=
        (m_buffer t ! nat (m_cursorY t))[nat (m_cursorX t) := glyphCell t ch]]"

definition glyphAndBlankAt :: "TerminalWidget \<Rightarrow> QChar \<Rightarrow> TermChar list list" where
  "glyphAndBlankAt t ch =
     (m_buffer t)[nat (m_cursorY t) :=
        (m_buffer t ! nat (m_cursorY t))
          [nat (m_cursorX t) := glyphCell t ch,
           nat (m_cursorX t + 1) :=
             (m_buffer t ! nat (m_cursorY t) ! nat (m_cursorX t + 1))\<lparr>character := 0x20\<rparr>]]"

text \<open>
  A run of the widget: the cursor is sent to the bottom right corner of the initial
  screen and saved there (\<open>ESC [ 2 4 ; 8 0 H\<close>, \<open>ESC [ s\<close>), the window shrinks to one
  row of one column, and the cursor is restored (\<open>ESC [ u\<close>).
\<close>

definition saved_corner :: TerminalWidget where
  "saved_corner =
     the (processOutput TerminalWidget
            [0x1B, 0x5B, 0x32, 0x34, 0x3B, 0x38, 0x30, 0x48, 0x1B, 0x5B, 0x73])"

definition shrunk :: TerminalWidget where
  "shrunk = resizeBuffer saved_corner 1 1"

definition restored :: TerminalWidget where
  "restored = the (processOutput shrunk [0x1B, 0x5B, 0x75])"

text \<open>
  A run of the widget that leaves content on both sides of column 40: forty letters
  \<open>A\<close> and twenty letters \<open>B\<close> typed on the initial screen.
\<close>

definition typed_row :: TerminalWidget where
  "typed_row = the (processOutput TerminalWidget (replicate 40 0x41 @ replicate 20 0x42))"

text \<open>
  Two runs of the widget with malformed input before a well-formed sequence of four
  bytes, \<open>F0 9F 98 80\<close> for U+1F600: after a stray continuation byte \<open>80\<close>, and after
  the lead byte \<open>E4\<close> of a sequence of three bytes that never gets its continuation.
\<close>

definition stray_then_four :: TerminalWidget where
  "stray_then_four = the (processOutput TerminalWidget [0x80, 0xF0, 0x9F, 0x98, 0x80])"

definition aborted_then_four :: TerminalWidget where
  "aborted_then_four = the (processOutput TerminalWidget [0xE4, 0xF0, 0x9F, 0x98, 0x80])"

section \<open>The colour palette\<close>

lemma palette_value: "initializeColorPalette = map palette_at [0..<256]"
  by code_simp

lemma palette_nth: "i < 256 \<Longrightarrow> initializeColorPalette ! i = palette_at i"
  by (simp add: palette_value)

lemma cube_digits:
  fixes r g b :: nat
  assumes "g < 6" "b < 6"
  shows "(36 * r + (6 * g + b)) div 36 = r" "(36 * r + (6 * g + b)) div 6 mod 6 = g"
    "(36 * r + (6 * g + b)) mod 6 = b"
proof -
  from assms have small: "6 * g + b < 36" by arith
  then show "(36 * r + (6 * g + b)) div 36 = r" by simp
  have split: "36 * r + (6 * g + b) = 6 * (6 * r + g) + b" by simp
  from assms show "(36 * r + (6 * g + b)) div 6 mod 6 = g"
    unfolding split by (simp del: distrib_left_numeral)
  from assms show "(36 * r + (6 * g + b)) mod 6 = b"
    unfolding split by (simp del: distrib_left_numeral)
qed

text \<open>
  Claim C7. The palette has 256 entries; entries 0 to 15 are the fixed colours; entry
  \<open>16 + 36 r + 6 g + b\<close> of the cube has the components of the digits \<open>r\<close>, \<open>g\<close>, \<open>b\<close>,
  each 0 for digit 0 and \<open>55 + 40 n\<close> for digit \<open>n\<close>; entry \<open>232 + i\<close> is the grey
  \<open>8 + 10 i\<close>; entries 16, 231, 232 and 255 are black, white, (8,8,8) and (238,238,238).
\<close>

theorem C7_palette:
  "length initializeColorPalette = 256 \<and>
   (\<forall>i<16. initializeColorPalette ! i = fixed16 ! i) \<and>
   (\<forall>r<6. \<forall>g<6. \<forall>b<6. initializeColorPalette ! (16 + 36 * r + 6 * g + b) =
        Rgb (cube_component r) (cube_component g) (cube_component b)) \<and>
   (\<forall>i<24. initializeColorPalette ! (232 + i) =
        Rgb (8 + 10 * int i) (8 + 10 * int i) (8 + 10 * int i)) \<and>
   initializeColorPalette ! 16 = Rgb 0 0 0 \<and>
   initializeColorPalette ! 231 = Rgb 255 255 255 \<and>
   initializeColorPalette ! 232 = Rgb 8 8 8 \<and>
   initializeColorPalette ! 255 = Rgb 238 238 238"
proof (intro conjI allI impI)
  show "length initializeColorPalette = 256" by (simp add: palette_value)
next
  fix i :: nat assume "i < 16"
  then show "initializeColorPalette ! i = fixed16 ! i"
    by (simp add: palette_nth palette_at_def)
next
  fix r g b :: nat assume h: "r < 6" "g < 6" "b < 6"
  then have "16 + 36 * r + 6 * g + b < 232" by arith
  moreover have "16 + 36 * r + 6 * g + b - 16 = 36 * r + 6 * g + b" by simp
  ultimately show "initializeColorPalette ! (16 + 36 * r + 6 * g + b) =
        Rgb (cube_component r) (cube_component g) (cube_component b)"
    using h by (simp add: palette_nth palette_at_def cube_digits del: add_diff_cancel_left')
next
  fix i :: nat assume "i < 24"
  then show "initializeColorPalette ! (232 + i) =
        Rgb (8 + 10 * int i) (8 + 10 * int i) (8 + 10 * int i)"
    by (simp add: palette_nth palette_at_def)
qed (simp_all add: palette_nth palette_at_def cube_component_def)

theorem C7_palette_witness:
  "initializeColorPalette ! 9 = Rgb 251 73 52 \<and>
   initializeColorPalette ! (16 + 36 * 1 + 6 * 2 + 3) = Rgb 95 135 175 \<and>
   initializeColorPalette ! (232 + 5) = Rgb 58 58 58"
proof -
  from C7_palette have
    a: "\<forall>i<16. initializeColorPalette ! i = fixed16 ! i" and
    b: "\<forall>r<6. \<forall>g<6. \<forall>b<6. initializeColorPalette ! (16 + 36 * r + 6 * g + b) =
        Rgb (cube_component r) (cube_component g) (cube_component b)" and
    c: "\<forall>i<24. initializeColorPalette ! (232 + i) =
        Rgb (8 + 10 * int i) (8 + 10 * int i) (8 + 10 * int i)"
    by blast+
  have "initializeColorPalette ! 9 = fixed16 ! 9"
    using a [rule_format, of 9] by simp
  moreover have "initializeColorPalette ! (16 + 36 * 1 + 6 * 2 + 3) =
        Rgb (cube_component 1) (cube_component 2) (cube_component 3)"
    using b [rule_format, of 1 2 3] by simp
  moreover have "initializeColorPalette ! (232 + 5) =
        Rgb (8 + 10 * int 5) (8 + 10 * int 5) (8 + 10 * int 5)"
    using c [rule_format, of 5] by simp
  ultimately show ?thesis
    by (simp add: fixed16_def cube_component_def)
qed

section \<open>Select Graphic Rendition\<close>

lemma sgr_case_values:
  "sgr_case t 0 rest = (t\<lparr>m_currentFg := m_defaultFg t, m_currentBg := m_defaultBg t,
          m_bold := False, m_italic := False, m_underline := False\<rparr>, 0)"
  "sgr_case t 1 rest = (t\<lparr>m_bold := True\<rparr>, 0)"
  "sgr_case t 3 rest = (t\<lparr>m_italic := True\<rparr>, 0)"
  "sgr_case t 4 rest = (t\<lparr>m_underline := True\<rparr>, 0)"
  "sgr_case t 22 rest = (t\<lparr>m_bold := False\<rparr>, 0)"
  "sgr_case t 23 rest = (t\<lparr>m_italic := False\<rparr>, 0)"
  "sgr_case t 24 rest = (t\<lparr>m_underline := False\<rparr>, 0)"
  by (simp_all add: sgr_case_def)

lemma sgr_case_extended:
  "sgr_case t 38 (5 # N # rest) =
     (if 0 \<le> N \<and> N < 256 then t\<lparr>m_currentFg := m_colorPalette t ! nat N\<rparr> else t, 2)"
  "sgr_case t 48 (5 # N # rest) =
     (if 0 \<le> N \<and> N < 256 then t\<lparr>m_currentBg := m_colorPalette t ! nat N\<rparr> else t, 2)"
  by (simp_all add: sgr_case_def)

lemma sgr_case_style:
  assumes "p \<in> style_params"
  shows "snd (sgr_case t p rest) = 0 \<and> fst (sgr_case t p rest) = fst (sgr_case t p rest') \<and>
     default_attrs (fst (sgr_case t p rest)) = default_attrs t"
proof -
  from assms consider "p = 1" | "p = 3" | "p = 4" | "p = 22" | "p = 23" | "p = 24"
    unfolding style_params_def by blast
  then show ?thesis
    by cases (simp_all add: sgr_case_values default_attrs_def)
qed

lemma processSGR_style_append:
  "set ps \<subseteq> style_params \<Longrightarrow> processSGR t (ps @ qs) = processSGR (processSGR t ps) qs"
proof (induction ps arbitrary: t)
  case Nil
  then show ?case by simp
next
  case (Cons p ps)
  then have p: "p \<in> style_params" and ps: "set ps \<subseteq> style_params" by auto
  from sgr_case_style [OF p, of t "ps @ qs" ps]
  have "snd (sgr_case t p (ps @ qs)) = 0" "snd (sgr_case t p ps) = 0"
    "fst (sgr_case t p (ps @ qs)) = fst (sgr_case t p ps)"
    using sgr_case_style [OF p, of t ps ps] by simp_all
  then show ?case
    using Cons.IH [OF ps] by simp
qed

lemma processSGR_style_defaults:
  "set ps \<subseteq> style_params \<Longrightarrow> default_attrs (processSGR t ps) = default_attrs t"
proof (induction ps arbitrary: t)
  case Nil
  then show ?case by simp
next
  case (Cons p ps)
  then have p: "p \<in> style_params" and ps: "set ps \<subseteq> style_params" by auto
  show ?case
    using Cons.IH [OF ps, of "fst (sgr_case t p ps)"]
    using sgr_case_style [OF p, of t ps ps] by simp
qed

lemma processSGR_reset:
  "attrs (processSGR t [0]) = default_attrs t" "default_attrs (processSGR t [0]) = default_attrs t"
  by (simp_all add: sgr_case_values attrs_def default_attrs_def)

lemma processSGR_reset_first: "processSGR t (0 # ps) = processSGR (processSGR t [0]) ps"
  by (simp add: sgr_case_values)

text \<open>
  Claim C8. A reset, then any parameters among 1, 3, 4, 22, 23, 24, then a reset again
  leave the attribute state (current foreground and background, bold, italic, underline)
  equal to the default attribute state, both when the three steps are three SGR commands
  and when they are the parameters of one command.
\<close>

theorem C8_sgr_reset_round_trip:
  assumes "set ps \<subseteq> style_params"
  shows "attrs (processSGR (processSGR (processSGR t [0]) ps) [0]) = default_attrs t \<and>
         attrs (processSGR t (0 # ps @ [0])) = default_attrs t"
proof -
  have separate: "attrs (processSGR (processSGR (processSGR t [0]) ps) [0]) = default_attrs t"
    by (simp only: processSGR_reset processSGR_style_defaults [OF assms])
  have "processSGR t (0 # ps @ [0]) = processSGR (processSGR t [0]) (ps @ [0])"
    by (rule processSGR_reset_first)
  also have "\<dots> = processSGR (processSGR (processSGR t [0]) ps) [0]"
    by (rule processSGR_style_append [OF assms])
  finally show ?thesis using separate by (simp only: simp_thms)
qed

theorem C8_sgr_reset_round_trip_witness:
  "set [1, 4, 22, 3, 23, 24, 1] \<subseteq> style_params \<and>
   attrs (processSGR (processSGR (processSGR TerminalWidget [0]) [1, 4, 22, 3, 23, 24, 1]) [0])
     = default_attrs TerminalWidget \<and>
   attrs (processSGR TerminalWidget (0 # [1, 4, 22, 3, 23, 24, 1] @ [0]))
     = default_attrs TerminalWidget"
proof -
  have h: "set [1, 4, 22, 3, 23, 24, 1] \<subseteq> style_params"
    by (simp add: style_params_def)
  from h C8_sgr_reset_round_trip [OF h, of TerminalWidget] show ?thesis
    by blast
qed

text \<open>
  Claim C10. With \<open>N\<close> outside 0..255, the parameters \<open>38;5;N\<close> leave the current
  foreground as it was and \<open>48;5;N\<close> leave the current background as it was; the three
  parameters are consumed, and the parameters after them are processed as they would be
  on their own.
\<close>

theorem C10_sgr_extended_out_of_range:
  assumes "N < 0 \<or> 255 < N"
  shows "processSGR t (38 # 5 # N # rest) = processSGR t rest \<and>
         processSGR t (48 # 5 # N # rest) = processSGR t rest \<and>
         m_currentFg (processSGR t [38, 5, N]) = m_currentFg t \<and>
         m_currentBg (processSGR t [48, 5, N]) = m_currentBg t"
proof -
  from assms have out: "\<not> (0 \<le> N \<and> N < 256)" by arith
  show ?thesis
    by (simp add: sgr_case_extended out)
qed

theorem C10_sgr_extended_out_of_range_witness:
  "((256::int) < 0 \<or> 255 < (256::int)) \<and>
   processSGR TerminalWidget [38, 5, 256, 1] = processSGR TerminalWidget [1] \<and>
   processSGR TerminalWidget [48, 5, 256, 1] = processSGR TerminalWidget [1] \<and>
   m_currentFg (processSGR TerminalWidget [38, 5, 256]) = m_currentFg TerminalWidget \<and>
   m_currentBg (processSGR TerminalWidget [48, 5, 256]) = m_currentBg TerminalWidget"
proof -
  have h: "(256::int) < 0 \<or> 255 < (256::int)" by simp
  from h C10_sgr_extended_out_of_range [OF h, of TerminalWidget "[1]"] show ?thesis
    by blast
qed

section \<open>Scrolling\<close>

lemma shift_rows:
  "n < length b \<Longrightarrow>
     length (fold (\<lambda>y b. b[y := b ! Suc y]) [0..<n] b) = length b \<and>
     (\<forall>i < length b. fold (\<lambda>y b. b[y := b ! Suc y]) [0..<n] b ! i =
        (if i < n then b ! Suc i else b ! i))"
proof (induction n)
  case 0
  then show ?case by simp
next
  case (Suc n)
  then have IH: "length (fold (\<lambda>y b. b[y := b ! Suc y]) [0..<n] b) = length b"
    "\<And>i. i < length b \<Longrightarrow> fold (\<lambda>y b. b[y := b ! Suc y]) [0..<n] b ! i =
        (if i < n then b ! Suc i else b ! i)"
    by simp_all
  from Suc.prems have "Suc n < length b" .
  then show ?case
    by (auto simp: IH nth_list_update)
qed

lemma fill_row:
  "m \<le> length r \<Longrightarrow> fold (\<lambda>x r. r[x := v]) [0..<m] r = replicate m v @ drop m r"
proof (induction m)
  case 0
  then show ?case by simp
next
  case (Suc m)
  then have IH: "fold (\<lambda>x r. r[x := v]) [0..<m] r = replicate m v @ drop m r" by simp
  from Suc.prems have m: "m < length r" by simp
  have "(replicate m v @ drop m r)[m := v] = replicate m v @ (drop m r)[0 := v]"
    by (simp add: list_update_append)
  also have "(drop m r)[0 := v] = v # drop (Suc m) r"
    using m by (simp add: Cons_nth_drop_Suc [symmetric])
  finally show ?case
    by (simp add: IH replicate_append_same)
qed

lemma fill_in_row:
  "k < length b \<Longrightarrow>
     fold (\<lambda>x b. b[k := (b ! k)[x := v]]) [0..<m] b = b[k := fold (\<lambda>x r. r[x := v]) [0..<m] (b ! k)]"
  by (induction m) simp_all

lemma scrollUp_buffer:
  assumes "grid_ok t"
  shows "m_buffer (scrollUp t) = tl (m_buffer t) @ [replicate (nat (m_cols t)) TermChar]"
proof -
  let ?b = "m_buffer t"
  let ?n = "nat (m_rows t - 1)"
  let ?moved = "fold (\<lambda>y b. b[y := b ! Suc y]) [0..<?n] ?b"
  from assms have len: "length ?b = Suc ?n" and rows: "\<forall>row \<in> set ?b. length row = nat (m_cols t)"
    by (auto simp: grid_ok_def)
  then have n: "?n < length ?b" by simp
  note sh = shift_rows [OF n]
  have lastrow: "length (?moved ! ?n) = nat (m_cols t)"
    using sh rows len by simp
  have buf: "m_buffer (scrollUp t) = ?moved[?n := replicate (nat (m_cols t)) TermChar]"
    using sh n lastrow by (simp add: scrollUp_def Let_def fill_in_row fill_row)
  show ?thesis
  proof (rule nth_equalityI)
    show "length (m_buffer (scrollUp t)) = length (tl ?b @ [replicate (nat (m_cols t)) TermChar])"
      using sh len by (simp add: buf)
  next
    fix i assume "i < length (m_buffer (scrollUp t))"
    then have i: "i < Suc ?n" using sh len by (simp add: buf)
    show "m_buffer (scrollUp t) ! i = (tl ?b @ [replicate (nat (m_cols t)) TermChar]) ! i"
    proof (cases "i = ?n")
      case True
      then show ?thesis using sh len by (simp add: buf nth_append)
    next
      case False
      with i have "i < ?n" by simp
      then show ?thesis using sh len by (simp add: buf nth_append nth_tl)
    qed
  qed
qed

lemma scrollUp_fields:
  "m_rows (scrollUp t) = m_rows t" "m_cols (scrollUp t) = m_cols t"
  "m_cursorX (scrollUp t) = m_cursorX t" "m_cursorY (scrollUp t) = m_cursorY t"
  "m_pendingNewline (scrollUp t) = m_pendingNewline t"
  by (simp_all add: scrollUp_def Let_def)

lemma scrollUp_eq:
  "grid_ok t \<Longrightarrow> scrollUp t = t\<lparr>m_buffer := tl (m_buffer t) @ [replicate (nat (m_cols t)) TermChar]\<rparr>"
  using scrollUp_buffer [of t] by (simp add: scrollUp_def Let_def)

section \<open>Line feed\<close>

lemma grid_ok_init: "grid_ok TerminalWidget"
  by (simp add: grid_ok_def TerminalWidget_def)

lemma nextRow_eq:
  assumes "grid_ok t"
  shows "nextRow t =
     (if m_cursorY t + 1 < m_rows t then t\<lparr>m_cursorY := m_cursorY t + 1\<rparr>
      else t\<lparr>m_buffer := tl (m_buffer t) @ [replicate (nat (m_cols t)) TermChar],
              m_cursorY := m_rows t - 1\<rparr>)"
proof -
  have "grid_ok (t\<lparr>m_cursorY := m_cursorY t + 1\<rparr>)"
    using assms by (simp add: grid_ok_def)
  from scrollUp_eq [OF this] show ?thesis
    by (simp add: nextRow_def Let_def)
qed

text \<open>
  Claim C1, as amended. In Ground state with the cursor on a row of the grid, a line feed
  that arrives while no newline is pending moves the cursor down one row, or scrolls the
  grid up by one row when the cursor is on the bottom row, sets the column to 0, marks a
  newline as pending and changes nothing else; no cell changes except through that
  scroll. A line feed that arrives while a newline is pending only clears the mark:
  cursor and cells stay as they are.
\<close>

theorem C1_line_feed:
  assumes "grid_ok t" and "m_escapeState t = NoneState"
    and "0 \<le> m_cursorY t" and "m_cursorY t < m_rows t"
  shows "processChar t 0x0A = Some
     (if m_pendingNewline t then t\<lparr>m_pendingNewline := False\<rparr>
      else if m_cursorY t < m_rows t - 1
        then t\<lparr>m_pendingNewline := True, m_cursorY := m_cursorY t + 1, m_cursorX := 0\<rparr>
        else t\<lparr>m_pendingNewline := True,
                m_buffer := tl (m_buffer t) @ [replicate (nat (m_cols t)) TermChar],
                m_cursorY := m_cursorY t, m_cursorX := 0\<rparr>)"
proof -
  have g: "grid_ok (t\<lparr>m_pendingNewline := True\<rparr>)"
    using assms(1) by (simp add: grid_ok_def)
  have "processChar t 0x0A = processRegularChar t 0x0A"
    using assms(2) by (simp add: processChar_def)
  then show ?thesis
    using assms(3,4) by (auto simp add: processRegularChar_def nextRow_eq [OF g])
qed

theorem C1_line_feed_witness:
  "grid_ok TerminalWidget \<and> m_escapeState TerminalWidget = NoneState \<and>
   0 \<le> m_cursorY TerminalWidget \<and> m_cursorY TerminalWidget < m_rows TerminalWidget \<and>
   processChar TerminalWidget 0x0A =
     Some (TerminalWidget\<lparr>m_pendingNewline := True, m_cursorY := 1, m_cursorX := 0\<rparr>)"
proof -
  have h: "grid_ok TerminalWidget" "m_escapeState TerminalWidget = NoneState"
    "0 \<le> m_cursorY TerminalWidget" "m_cursorY TerminalWidget < m_rows TerminalWidget"
    by (simp_all add: grid_ok_init) (simp_all add: TerminalWidget_def)
  have v: "\<not> m_pendingNewline TerminalWidget" "m_cursorY TerminalWidget = 0"
    "m_rows TerminalWidget = 24"
    by (simp_all add: TerminalWidget_def)
  show ?thesis
    using h C1_line_feed [OF h] by (simp add: v)
qed

text \<open>
  Two line feeds in a row on the initial screen: the first moves the cursor to row 1, the
  second leaves it on row 1.
\<close>

theorem C1_two_line_feeds_counterexample:
  "processOutput TerminalWidget [0x0A] \<noteq> None \<and>
   m_cursorY (the (processOutput TerminalWidget [0x0A])) = 1 \<and>
   processOutput TerminalWidget [0x0A, 0x0A] \<noteq> None \<and>
   m_cursorY (the (processOutput TerminalWidget [0x0A, 0x0A])) = 1"
  by (simp add: processByte_def processChar_def processRegularChar_def nextRow_def
      TerminalWidget_def Let_def)

section \<open>The Escape state\<close>

lemma grid_row_length:
  "grid_ok t \<Longrightarrow> 0 \<le> y \<Longrightarrow> y < m_rows t \<Longrightarrow> length (m_buffer t ! nat y) = nat (m_cols t)"
  by (simp add: grid_ok_def)

lemma inBounds_cursor:
  "grid_ok t \<Longrightarrow> cursor_ok t \<Longrightarrow> inBounds t (m_cursorY t) (m_cursorX t)"
  using grid_row_length [of t "m_cursorY t"]
  by (simp add: inBounds_def cursor_ok_def grid_ok_def)

lemma scrollUp_escapeState: "m_escapeState (scrollUp t) = m_escapeState t"
  by (simp add: scrollUp_def Let_def)

lemma nextRow_escapeState: "m_escapeState (nextRow t) = m_escapeState t"
  by (simp add: nextRow_def Let_def scrollUp_escapeState)

lemma wrapLine_escapeState: "m_escapeState (wrapLine t) = m_escapeState t"
  by (simp add: wrapLine_def nextRow_escapeState)

lemma storeChar_Some:
  "inBounds t (m_cursorY t) (m_cursorX t) \<Longrightarrow> \<exists>t'. storeChar t ch = Some t'"
  by (simp add: storeChar_def updCell_def)

lemma storeChar_escapeState:
  "storeChar t ch = Some t' \<Longrightarrow> m_escapeState t' = m_escapeState t"
  by (auto simp: storeChar_def updCell_def split: if_splits)

lemma processRegularChar_escapeState:
  "processRegularChar t c = Some t' \<Longrightarrow> m_escapeState t' = m_escapeState t"
  by (auto simp: processRegularChar_def Let_def nextRow_escapeState wrapLine_escapeState
      dest!: storeChar_escapeState split: if_splits option.splits)

lemma processRegularChar_Some:
  assumes "grid_ok t" "cursor_ok t"
  shows "\<exists>t'. processRegularChar t c = Some t'"
proof -
  have "inBounds (t\<lparr>m_pendingNewline := False\<rparr>) (m_cursorY t) (m_cursorX t)"
    using inBounds_cursor [OF assms] by (simp add: inBounds_def)
  then obtain t1 where "storeChar (t\<lparr>m_pendingNewline := False\<rparr>) (ucast c) = Some t1"
    using storeChar_Some [of "t\<lparr>m_pendingNewline := False\<rparr>"] by auto
  then show ?thesis
    by (simp add: processRegularChar_def Let_def)
qed

text \<open>
  Claim C4, as amended. In the Escape state \<open>[\<close> leads to Bracket and \<open>]\<close> to OSC with
  the parameter buffer cleared; \<open>%\<close> changes nothing, so the parser stays in the Escape
  state; every other character returns the parser to Ground and is handed to
  \<open>processRegularChar\<close>, which on a grid with the cursor on a cell always yields a state,
  and that state is in Ground.
\<close>

theorem C4_escape_state:
  assumes "m_escapeState t = Escape"
  shows "processChar t 0x5B = Some (t\<lparr>m_escapeState := Bracket\<rparr>) \<and>
         processChar t 0x5D = Some (t\<lparr>m_escapeState := OSC, m_escapeSequence := []\<rparr>) \<and>
         processChar t 0x25 = Some t \<and>
         (c \<noteq> 0x5B \<and> c \<noteq> 0x5D \<and> c \<noteq> 0x25 \<and> grid_ok t \<and> cursor_ok t \<longrightarrow>
            (\<exists>t'. processChar t c = Some t' \<and>
                  processRegularChar (t\<lparr>m_escapeState := NoneState\<rparr>) c = Some t' \<and>
                  m_escapeState t' = NoneState))"
proof (intro conjI impI)
  assume h: "c \<noteq> 0x5B \<and> c \<noteq> 0x5D \<and> c \<noteq> 0x25 \<and> grid_ok t \<and> cursor_ok t"
  let ?g = "t\<lparr>m_escapeState := NoneState\<rparr>"
  from h have "grid_ok ?g" "cursor_ok ?g" by (simp_all add: grid_ok_def cursor_ok_def)
  then obtain t' where t': "processRegularChar ?g c = Some t'"
    using processRegularChar_Some by blast
  from processRegularChar_escapeState [OF t'] have "m_escapeState t' = NoneState" by simp
  moreover from h assms have "processChar t c = processRegularChar ?g c"
    by (simp add: processChar_def)
  ultimately show "\<exists>t'. processChar t c = Some t' \<and>
                  processRegularChar ?g c = Some t' \<and> m_escapeState t' = NoneState"
    using t' by simp
qed (use assms in \<open>simp_all add: processChar_def\<close>)

theorem C4_escape_state_witness:
  "m_escapeState (TerminalWidget\<lparr>m_escapeState := Escape\<rparr>) = Escape \<and>
   (0x41 :: byte) \<noteq> 0x5B \<and> (0x41 :: byte) \<noteq> 0x5D \<and> (0x41 :: byte) \<noteq> 0x25 \<and>
   grid_ok (TerminalWidget\<lparr>m_escapeState := Escape\<rparr>) \<and>
   cursor_ok (TerminalWidget\<lparr>m_escapeState := Escape\<rparr>) \<and>
   (\<exists>t'. processChar (TerminalWidget\<lparr>m_escapeState := Escape\<rparr>) 0x41 = Some t' \<and>
         processRegularChar (TerminalWidget\<lparr>m_escapeState := Escape, m_escapeState := NoneState\<rparr>) 0x41
           = Some t' \<and>
         m_escapeState t' = NoneState)"
proof -
  let ?t = "TerminalWidget\<lparr>m_escapeState := Escape\<rparr>"
  have e: "m_escapeState ?t = Escape" by simp
  have h: "(0x41 :: byte) \<noteq> 0x5B \<and> (0x41 :: byte) \<noteq> 0x5D \<and> (0x41 :: byte) \<noteq> 0x25 \<and>
           grid_ok ?t \<and> cursor_ok ?t"
    using grid_ok_init by (simp add: grid_ok_def cursor_ok_def) (simp add: TerminalWidget_def)
  from C4_escape_state [OF e, of "0x41"] h e show ?thesis
    by blast
qed

text \<open>
  ESC followed by \<open>%\<close> on the initial screen: the parser is in the Escape state before
  and after the \<open>%\<close>.
\<close>

theorem C4_percent_counterexample:
  "map_option m_escapeState (processOutput TerminalWidget [0x1B]) = Some Escape \<and>
   map_option m_escapeState (processOutput TerminalWidget [0x1B, 0x25]) = Some Escape"
  by (simp add: processByte_def processChar_def TerminalWidget_def)

section \<open>Bytes\<close>

lemma byte_law_all: "list_all (\<lambda>n. byte_law (word_of_nat n)) [0..<256]"
  by code_simp

lemma byte_law: "byte_law b"
proof -
  have "unat b < 256" using unsigned_less [of b] by simp
  then have "unat b \<in> set [0..<256]" by simp
  with byte_law_all have "byte_law (word_of_nat (unat b))"
    unfolding list_all_iff by blast
  then show ?thesis by simp
qed

lemma byte_masks:
  "(b AND 0x80) = 0 \<longleftrightarrow> unat b < 0x80"
  "(b AND 0xC0) = 0x80 \<longleftrightarrow> 0x80 \<le> unat b \<and> unat b < 0xC0"
  "(b AND 0xE0) = 0xC0 \<longleftrightarrow> 0xC0 \<le> unat b \<and> unat b < 0xE0"
  "(b AND 0xF0) = 0xE0 \<longleftrightarrow> 0xE0 \<le> unat b \<and> unat b < 0xF0"
  "(b AND 0xF8) = 0xF0 \<longleftrightarrow> 0xF0 \<le> unat b \<and> unat b < 0xF8"
  "unat (b AND 0x3F) = unat b mod 64"
  "unat (b AND 0x1F) = unat b mod 32"
  "unat (b AND 0x0F) = unat b mod 16"
  "unat (b AND 0x07) = unat b mod 8"
  for b :: byte
  using byte_law [of b] unfolding byte_law_def by blast+

lemma byte_sint:
  "sint b = (if unat b < 0x80 then int (unat b) else int (unat b) - 256)" for b :: byte
  using byte_law [of b] unfolding byte_law_def by blast

lemma unat_byte_less: "unat b < 256" for b :: byte
  using unsigned_less [of b] by simp

section \<open>Printable characters\<close>

lemma printable_facts:
  assumes "printable c"
  shows "c \<noteq> 0x0D" "c \<noteq> 0x0A" "c \<noteq> 0x08" "c \<noteq> 0x09" "c \<noteq> 0x07" "c \<noteq> 0x1B"
    "32 \<le> sint c" "c AND 0x80 = 0"
proof -
  from assms show "32 \<le> sint c" by (simp add: printable_def)
  from assms show "c \<noteq> 0x0D" "c \<noteq> 0x0A" "c \<noteq> 0x08" "c \<noteq> 0x09" "c \<noteq> 0x07" "c \<noteq> 0x1B"
    by (auto simp: printable_def)
  have "unat c < 0x80"
  proof (rule ccontr)
    assume "\<not> unat c < 0x80"
    then have "sint c = int (unat c) - 256" by (simp only: byte_sint if_False)
    moreover have "int (unat c) < 256" using unat_byte_less [of c] by (simp del: of_nat_unat)
    ultimately have "sint c < 0" by arith
    with assms show False by (simp add: printable_def)
  qed
  then show "c AND 0x80 = 0" by (simp only: byte_masks)
qed

lemma glyphCell_update:
  "cell\<lparr>character := ch, foreground := m_currentFg t, background := m_currentBg t,
        bold := m_bold t, italic := m_italic t, underline := m_underline t\<rparr> = glyphCell t ch"
  by (cases cell) (simp add: glyphCell_def)

lemma storeChar_eq:
  "inBounds t (m_cursorY t) (m_cursorX t) \<Longrightarrow>
     storeChar t ch = Some (t\<lparr>m_buffer := (m_buffer t)
        [nat (m_cursorY t) := (m_buffer t ! nat (m_cursorY t))[nat (m_cursorX t) := glyphCell t ch]]\<rparr>)"
  by (simp add: storeChar_def updCell_def glyphCell_update)

lemma processByte_printable:
  assumes "printable c" "m_escapeState t = NoneState" "m_utf8Remaining t = 0"
    "grid_ok t" "cursor_ok t"
  shows "processByte t c = Some (wrapLine (t\<lparr>m_pendingNewline := False,
     m_buffer := (m_buffer t)
        [nat (m_cursorY t) := (m_buffer t ! nat (m_cursorY t))[nat (m_cursorX t) := glyphCell t (ucast c)]],
     m_cursorX := m_cursorX t + 1\<rparr>))"
proof -
  note pf = printable_facts [OF assms(1)]
  let ?u = "t\<lparr>m_pendingNewline := False\<rparr>"
  have "processByte t c = processChar t c"
    using assms(3) pf(8) by (simp add: processByte_def)
  also have "\<dots> = processRegularChar t c"
    using assms(2) pf(6) by (simp add: processChar_def)
  also have "\<dots> = (case storeChar ?u (ucast c) of None \<Rightarrow> None
        | Some t1 \<Rightarrow> Some (wrapLine (t1\<lparr>m_cursorX := m_cursorX t1 + 1\<rparr>)))"
    using pf by (simp add: processRegularChar_def)
  also have "inBounds ?u (m_cursorY ?u) (m_cursorX ?u)"
    using inBounds_cursor [OF assms(4,5)] by (simp add: inBounds_def)
  from storeChar_eq [OF this, of "ucast c"]
  have "(case storeChar ?u (ucast c) of None \<Rightarrow> None
        | Some t1 \<Rightarrow> Some (wrapLine (t1\<lparr>m_cursorX := m_cursorX t1 + 1\<rparr>))) =
     Some (wrapLine (t\<lparr>m_pendingNewline := False,
     m_buffer := (m_buffer t)
        [nat (m_cursorY t) := (m_buffer t ! nat (m_cursorY t))[nat (m_cursorX t) := glyphCell t (ucast c)]],
     m_cursorX := m_cursorX t + 1\<rparr>))"
    by (simp add: glyphCell_def)
  finally show ?thesis .
qed

lemma wrapLine_inside: "m_cursorX t < m_cols t \<Longrightarrow> wrapLine t = t"
  by (simp add: wrapLine_def)

lemma wrapLine_next:
  assumes "grid_ok t" "m_cols t \<le> m_cursorX t" "m_cursorY t + 1 < m_rows t"
  shows "wrapLine t = t\<lparr>m_cursorX := 0, m_cursorY := m_cursorY t + 1\<rparr>"
proof -
  have "grid_ok (t\<lparr>m_cursorX := 0\<rparr>)" using assms(1) by (simp add: grid_ok_def)
  from nextRow_eq [OF this] assms(2,3) show ?thesis
    by (simp add: wrapLine_def)
qed

lemma processOutput_append:
  "processOutput t (xs @ ys) =
     (case processOutput t xs of None \<Rightarrow> None | Some t' \<Rightarrow> processOutput t' ys)"
  by (induction xs arbitrary: t) (simp_all split: option.splits)

lemma grid_ok_update_cell:
  assumes "grid_ok t"
  shows "grid_ok (t\<lparr>m_pendingNewline := p,
     m_buffer := (m_buffer t)[y := (m_buffer t ! y)[x := v]], m_cursorX := cx\<rparr>)"
proof -
  have "\<forall>row \<in> set ((m_buffer t)[y := (m_buffer t ! y)[x := v]]). length row = nat (m_cols t)"
  proof
    fix row assume "row \<in> set ((m_buffer t)[y := (m_buffer t ! y)[x := v]])"
    then have "row = (m_buffer t ! y)[x := v] \<and> y < length (m_buffer t) \<or> row \<in> set (m_buffer t)"
      using set_update_subset_insert [of "m_buffer t" y "(m_buffer t ! y)[x := v]"]
      by (cases "y < length (m_buffer t)") (auto simp: list_update_beyond)
    then show "length row = nat (m_cols t)"
      using assms by (auto simp: grid_ok_def)
  qed
  then show ?thesis using assms by (simp add: grid_ok_def)
qed

lemma put_run:
  assumes "\<forall>c\<in>set cs. printable c" "m_escapeState t = NoneState" "m_utf8Remaining t = 0"
    "grid_ok t" "0 \<le> m_cursorY t" "m_cursorY t < m_rows t" "0 \<le> m_cursorX t"
    "m_cursorX t + int (length cs) < m_cols t"
  shows "\<exists>t'. processOutput t cs = Some t' \<and>
     m_cursorX t' = m_cursorX t + int (length cs) \<and> m_cursorY t' = m_cursorY t \<and>
     m_buffer t' = (m_buffer t)[nat (m_cursorY t) :=
        take (nat (m_cursorX t)) (m_buffer t ! nat (m_cursorY t)) @
        map (\<lambda>c. glyphCell t (ucast c)) cs @
        drop (nat (m_cursorX t) + length cs) (m_buffer t ! nat (m_cursorY t))] \<and>
     m_escapeState t' = NoneState \<and> m_utf8Remaining t' = 0 \<and> grid_ok t' \<and>
     m_rows t' = m_rows t \<and> m_cols t' = m_cols t \<and> glyphCell t' = glyphCell t"
  using assms
proof (induction cs arbitrary: t)
  case Nil
  then show ?case by simp
next
  case (Cons c cs)
  let ?y = "nat (m_cursorY t)" and ?x = "nat (m_cursorX t)"
  let ?row = "m_buffer t ! ?y"
  let ?g = "\<lambda>c. glyphCell t (ucast c)"
  let ?t1 = "t\<lparr>m_pendingNewline := False,
     m_buffer := (m_buffer t)[?y := ?row[?x := ?g c]], m_cursorX := m_cursorX t + 1\<rparr>"
  from Cons.prems have c: "printable c" and cs: "\<forall>c\<in>set cs. printable c" by simp_all
  from Cons.prems have cur: "cursor_ok t" by (simp add: cursor_ok_def)
  from Cons.prems have ylen: "?y < length (m_buffer t)" by (simp add: grid_ok_def)
  from Cons.prems have rowlen: "length ?row = nat (m_cols t)"
    by (intro grid_row_length) simp_all
  from Cons.prems have xlen: "?x < length ?row" by (simp add: rowlen)
  have step: "processByte t c = Some (wrapLine ?t1)"
    using processByte_printable [OF c Cons.prems(2,3,4) cur] .
  have "m_cursorX ?t1 < m_cols ?t1" using Cons.prems by simp
  then have w: "wrapLine ?t1 = ?t1" by (rule wrapLine_inside)
  have g1: "grid_ok ?t1" using Cons.prems(4) by (rule grid_ok_update_cell)
  have gc: "glyphCell ?t1 = glyphCell t" by (rule ext) (simp add: glyphCell_def)
  have "\<exists>t'. processOutput ?t1 cs = Some t' \<and>
     m_cursorX t' = m_cursorX ?t1 + int (length cs) \<and> m_cursorY t' = m_cursorY ?t1 \<and>
     m_buffer t' = (m_buffer ?t1)[nat (m_cursorY ?t1) :=
        take (nat (m_cursorX ?t1)) (m_buffer ?t1 ! nat (m_cursorY ?t1)) @
        map (\<lambda>c. glyphCell ?t1 (ucast c)) cs @
        drop (nat (m_cursorX ?t1) + length cs) (m_buffer ?t1 ! nat (m_cursorY ?t1))] \<and>
     m_escapeState t' = NoneState \<and> m_utf8Remaining t' = 0 \<and> grid_ok t' \<and>
     m_rows t' = m_rows ?t1 \<and> m_cols t' = m_cols ?t1 \<and> glyphCell t' = glyphCell ?t1"
    using cs Cons.prems g1 by (intro Cons.IH) simp_all
  then obtain t' where t': "processOutput ?t1 cs = Some t'"
    "m_cursorX t' = m_cursorX ?t1 + int (length cs)" "m_cursorY t' = m_cursorY ?t1"
    "m_buffer t' = (m_buffer ?t1)[nat (m_cursorY ?t1) :=
        take (nat (m_cursorX ?t1)) (m_buffer ?t1 ! nat (m_cursorY ?t1)) @
        map (\<lambda>c. glyphCell ?t1 (ucast c)) cs @
        drop (nat (m_cursorX ?t1) + length cs) (m_buffer ?t1 ! nat (m_cursorY ?t1))]"
    "m_escapeState t' = NoneState" "m_utf8Remaining t' = 0" "grid_ok t'"
    "m_rows t' = m_rows ?t1" "m_cols t' = m_cols ?t1" "glyphCell t' = glyphCell ?t1"
    by blast
  have nx: "nat (m_cursorX t + 1) = Suc ?x" using Cons.prems by simp
  have tk: "take (Suc ?x) (?row[?x := ?g c]) = take ?x ?row @ [?g c]"
    using xlen by (simp add: take_Suc_conv_app_nth)
  have dr: "drop (Suc ?x + length cs) (?row[?x := ?g c]) = drop (Suc (?x + length cs)) ?row"
    by simp
  have buf: "m_buffer t' = (m_buffer t)[?y :=
        take ?x ?row @ map ?g (c # cs) @ drop (?x + length (c # cs)) ?row]"
    using ylen by (simp add: t'(4) nx tk dr gc)
  have "processOutput t (c # cs) = Some t'"
    by (simp add: step w t'(1))
  then show ?case
    using t' buf gc by simp
qed

lemma put_full_row:
  assumes "\<forall>c\<in>set cs. printable c" "m_escapeState t = NoneState" "m_utf8Remaining t = 0"
    "grid_ok t" "0 \<le> m_cursorY t" "m_cursorY t < m_rows t - 1" "m_cursorX t = 0"
    "int (length cs) = m_cols t"
  shows "\<exists>t'. processOutput t cs = Some t' \<and> m_cursorX t' = 0 \<and>
     m_cursorY t' = m_cursorY t + 1 \<and>
     m_buffer t' = (m_buffer t)[nat (m_cursorY t) := map (\<lambda>c. glyphCell t (ucast c)) cs]"
proof -
  let ?y = "nat (m_cursorY t)"
  let ?row = "m_buffer t ! ?y"
  let ?g = "\<lambda>c. glyphCell t (ucast c)"
  from assms have cols: "1 \<le> m_cols t" by (simp add: grid_ok_def)
  with assms(8) have ne: "cs \<noteq> []" by auto
  define cs0 where "cs0 = butlast cs"
  define c where "c = last cs"
  have cs: "cs = cs0 @ [c]" using ne by (simp add: cs0_def c_def)
  have len0: "int (length cs0) = m_cols t - 1" using assms(8) by (simp add: cs)
  have pc: "printable c" and pcs0: "\<forall>c\<in>set cs0. printable c"
    using assms(1) by (simp_all add: cs)
  from assms have ylen: "?y < length (m_buffer t)" by (simp add: grid_ok_def)
  from assms have rowlen: "length ?row = nat (m_cols t)"
    by (intro grid_row_length) simp_all
  have "\<exists>t'. processOutput t cs0 = Some t' \<and>
     m_cursorX t' = m_cursorX t + int (length cs0) \<and> m_cursorY t' = m_cursorY t \<and>
     m_buffer t' = (m_buffer t)[nat (m_cursorY t) :=
        take (nat (m_cursorX t)) (m_buffer t ! nat (m_cursorY t)) @
        map (\<lambda>c. glyphCell t (ucast c)) cs0 @
        drop (nat (m_cursorX t) + length cs0) (m_buffer t ! nat (m_cursorY t))] \<and>
     m_escapeState t' = NoneState \<and> m_utf8Remaining t' = 0 \<and> grid_ok t' \<and>
     m_rows t' = m_rows t \<and> m_cols t' = m_cols t \<and> glyphCell t' = glyphCell t"
    using pcs0 assms len0 by (intro put_run) simp_all
  then obtain t0 where t0: "processOutput t cs0 = Some t0"
    "m_cursorX t0 = int (length cs0)" "m_cursorY t0 = m_cursorY t"
    "m_buffer t0 = (m_buffer t)[?y := map ?g cs0 @ drop (length cs0) ?row]"
    "m_escapeState t0 = NoneState" "m_utf8Remaining t0 = 0" "grid_ok t0"
    "m_rows t0 = m_rows t" "m_cols t0 = m_cols t" "glyphCell t0 = glyphCell t"
    using assms(7) by auto
  let ?r0 = "map ?g cs0 @ drop (length cs0) ?row"
  let ?t1 = "t0\<lparr>m_pendingNewline := False,
     m_buffer := (m_buffer t0)[nat (m_cursorY t0) :=
        (m_buffer t0 ! nat (m_cursorY t0))[nat (m_cursorX t0) := glyphCell t0 (ucast c)]],
     m_cursorX := m_cursorX t0 + 1\<rparr>"
  have cur0: "cursor_ok t0"
    using assms(5,6) len0 t0 by (simp add: cursor_ok_def)
  have step: "processByte t0 c = Some (wrapLine ?t1)"
    using processByte_printable [OF pc t0(5,6,7) cur0] .
  have g1: "grid_ok ?t1" using t0(7) by (rule grid_ok_update_cell)
  have "wrapLine ?t1 = ?t1\<lparr>m_cursorX := 0, m_cursorY := m_cursorY ?t1 + 1\<rparr>"
    using g1 assms(6) len0 t0 by (intro wrapLine_next) simp_all
  then have out: "processOutput t0 [c] =
      Some (?t1\<lparr>m_cursorX := 0, m_cursorY := m_cursorY ?t1 + 1\<rparr>)"
    by (simp add: step)
  have row0: "m_buffer t0 ! ?y = ?r0" using ylen by (simp add: t0(4))
  have l0: "length (drop (length cs0) ?row) = 1"
    using len0 cols by (simp add: rowlen)
  then obtain v where v: "drop (length cs0) ?row = [v]"
    by (cases "drop (length cs0) ?row") simp_all
  have upd: "?r0[length cs0 := ?g c] = map ?g cs"
    by (simp add: v cs list_update_append)
  have buf: "m_buffer ?t1 = (m_buffer t)[?y := map ?g cs]"
    using ylen by (simp add: t0(2,3,10) row0 upd) (simp add: t0(4))
  have "processOutput t cs = Some (?t1\<lparr>m_cursorX := 0, m_cursorY := m_cursorY ?t1 + 1\<rparr>)"
    by (simp only: cs processOutput_append t0(1) option.case out)
  then show ?thesis
    using buf t0(3) by simp
qed

text \<open>
  Claim C6. The parser is in Ground state with no UTF-8 sequence pending and the cursor
  is at column 0 of a row that is not the bottom row. Feeding \<open>n\<close> printable ASCII
  characters with \<open>n\<close> below the row width leaves the cursor at column \<open>n\<close> of the same
  row, with cell \<open>i\<close> of the row holding character \<open>i\<close> under the current attributes and
  the rest of the grid unchanged. Feeding exactly as many characters as the row is wide
  fills the row and leaves the cursor at column 0 of the next row.
\<close>

theorem C6_printable_run:
  assumes "grid_ok t" and "m_escapeState t = NoneState" and "m_utf8Remaining t = 0"
    and "m_cursorX t = 0" and "0 \<le> m_cursorY t" and "m_cursorY t < m_rows t - 1"
    and "\<forall>c\<in>set cs. printable c"
  shows "(int (length cs) < m_cols t \<longrightarrow>
            (\<exists>t'. processOutput t cs = Some t' \<and>
               m_cursorX t' = int (length cs) \<and> m_cursorY t' = m_cursorY t \<and>
               (\<forall>i<length cs. character (m_buffer t' ! nat (m_cursorY t) ! i) = ucast (cs ! i)) \<and>
               m_buffer t' = (m_buffer t)[nat (m_cursorY t) :=
                  map (\<lambda>c. glyphCell t (ucast c)) cs @
                  drop (length cs) (m_buffer t ! nat (m_cursorY t))])) \<and>
         (int (length cs) = m_cols t \<longrightarrow>
            (\<exists>t'. processOutput t cs = Some t' \<and>
               m_cursorX t' = 0 \<and> m_cursorY t' = m_cursorY t + 1 \<and>
               m_buffer t' = (m_buffer t)[nat (m_cursorY t) :=
                  map (\<lambda>c. glyphCell t (ucast c)) cs]))"
proof (intro conjI impI)
  assume short: "int (length cs) < m_cols t"
  let ?y = "nat (m_cursorY t)"
  from assms have ylen: "?y < length (m_buffer t)" by (simp add: grid_ok_def)
  have "\<exists>t'. processOutput t cs = Some t' \<and>
     m_cursorX t' = m_cursorX t + int (length cs) \<and> m_cursorY t' = m_cursorY t \<and>
     m_buffer t' = (m_buffer t)[nat (m_cursorY t) :=
        take (nat (m_cursorX t)) (m_buffer t ! nat (m_cursorY t)) @
        map (\<lambda>c. glyphCell t (ucast c)) cs @
        drop (nat (m_cursorX t) + length cs) (m_buffer t ! nat (m_cursorY t))] \<and>
     m_escapeState t' = NoneState \<and> m_utf8Remaining t' = 0 \<and> grid_ok t' \<and>
     m_rows t' = m_rows t \<and> m_cols t' = m_cols t \<and> glyphCell t' = glyphCell t"
    using assms short by (intro put_run) simp_all
  then obtain t' where t': "processOutput t cs = Some t'"
    "m_cursorX t' = int (length cs)" "m_cursorY t' = m_cursorY t"
    "m_buffer t' = (m_buffer t)[?y := map (\<lambda>c. glyphCell t (ucast c)) cs @
        drop (length cs) (m_buffer t ! ?y)]"
    using assms(4) by auto
  have "\<forall>i<length cs. character (m_buffer t' ! ?y ! i) = ucast (cs ! i)"
    using ylen by (simp add: t'(4) nth_append glyphCell_def)
  with t' show "\<exists>t'. processOutput t cs = Some t' \<and>
               m_cursorX t' = int (length cs) \<and> m_cursorY t' = m_cursorY t \<and>
               (\<forall>i<length cs. character (m_buffer t' ! nat (m_cursorY t) ! i) = ucast (cs ! i)) \<and>
               m_buffer t' = (m_buffer t)[nat (m_cursorY t) :=
                  map (\<lambda>c. glyphCell t (ucast c)) cs @
                  drop (length cs) (m_buffer t ! nat (m_cursorY t))]"
    by blast
next
  assume "int (length cs) = m_cols t"
  with assms show "\<exists>t'. processOutput t cs = Some t' \<and>
               m_cursorX t' = 0 \<and> m_cursorY t' = m_cursorY t + 1 \<and>
               m_buffer t' = (m_buffer t)[nat (m_cursorY t) :=
                  map (\<lambda>c. glyphCell t (ucast c)) cs]"
    by (intro put_full_row) simp_all
qed

lemma init_fields:
  "m_escapeState TerminalWidget = NoneState" "m_utf8Remaining TerminalWidget = 0"
  "m_cursorX TerminalWidget = 0" "m_cursorY TerminalWidget = 0"
  "m_rows TerminalWidget = 24" "m_cols TerminalWidget = 80"
  by (simp_all add: TerminalWidget_def)

theorem C6_printable_run_witness:
  "grid_ok TerminalWidget \<and> m_escapeState TerminalWidget = NoneState \<and>
   m_utf8Remaining TerminalWidget = 0 \<and> m_cursorX TerminalWidget = 0 \<and>
   0 \<le> m_cursorY TerminalWidget \<and> m_cursorY TerminalWidget < m_rows TerminalWidget - 1 \<and>
   printable 0x48 \<and> printable 0x69 \<and> printable 0x41 \<and>
   int (length [0x48 :: byte, 0x69]) < m_cols TerminalWidget \<and>
   int (length (replicate 80 (0x41 :: byte))) = m_cols TerminalWidget \<and>
   (\<exists>t'. processOutput TerminalWidget [0x48, 0x69] = Some t' \<and>
         m_cursorX t' = 2 \<and> m_cursorY t' = 0 \<and>
         character (m_buffer t' ! 0 ! 0) = 0x48 \<and> character (m_buffer t' ! 0 ! 1) = 0x69) \<and>
   (\<exists>t'. processOutput TerminalWidget (replicate 80 0x41) = Some t' \<and>
         m_cursorX t' = 0 \<and> m_cursorY t' = 1)"
proof -
  have h: "grid_ok TerminalWidget" "m_escapeState TerminalWidget = NoneState"
    "m_utf8Remaining TerminalWidget = 0" "m_cursorX TerminalWidget = 0"
    "0 \<le> m_cursorY TerminalWidget" "m_cursorY TerminalWidget < m_rows TerminalWidget - 1"
    by (simp_all add: grid_ok_init init_fields)
  have p1: "\<forall>c\<in>set [0x48, 0x69]. printable c" by (simp add: printable_def)
  have p2: "\<forall>c\<in>set (replicate 80 0x41). printable c" by (simp add: printable_def)
  have l1: "int (length [0x48 :: byte, 0x69]) < m_cols TerminalWidget"
    and l2: "int (length (replicate 80 (0x41 :: byte))) = m_cols TerminalWidget"
    by (simp_all add: init_fields)
  from C6_printable_run [OF h p1] l1
  obtain t1 where t1: "processOutput TerminalWidget [0x48, 0x69] = Some t1"
    "m_cursorX t1 = int (length [0x48 :: byte, 0x69])" "m_cursorY t1 = m_cursorY TerminalWidget"
    "\<forall>i<length [0x48 :: byte, 0x69].
       character (m_buffer t1 ! nat (m_cursorY TerminalWidget) ! i) = ucast ([0x48 :: byte, 0x69] ! i)"
    by blast
  have a: "\<exists>t'. processOutput TerminalWidget [0x48, 0x69] = Some t' \<and>
         m_cursorX t' = 2 \<and> m_cursorY t' = 0 \<and>
         character (m_buffer t' ! 0 ! 0) = 0x48 \<and> character (m_buffer t' ! 0 ! 1) = 0x69"
    using t1(1,2,3) t1(4) [rule_format, of 0] t1(4) [rule_format, of 1]
    by (simp add: init_fields)
  from C6_printable_run [OF h p2] l2
  have b: "\<exists>t'. processOutput TerminalWidget (replicate 80 0x41) = Some t' \<and>
         m_cursorX t' = 0 \<and> m_cursorY t' = 1"
    by (auto simp: init_fields)
  have p: "printable 0x48" "printable 0x69" "printable 0x41" by (simp_all add: printable_def)
  from h p l1 l2 a b show ?thesis by blast
qed

section \<open>Resizing\<close>

lemma copyRow_nth:
  "n \<le> length new \<Longrightarrow>
     length (copyRow n old new) = length new \<and>
     (\<forall>x < length new. copyRow n old new ! x = (if x < n then old ! x else new ! x))"
proof (induction n)
  case 0
  then show ?case by (simp add: copyRow_def)
next
  case (Suc n)
  then have IH: "length (copyRow n old new) = length new"
    "\<And>x. x < length new \<Longrightarrow> copyRow n old new ! x = (if x < n then old ! x else new ! x)"
    by simp_all
  have step: "copyRow (Suc n) old new = (copyRow n old new)[n := old ! n]"
    by (simp add: copyRow_def)
  from Suc.prems have "n < length new" by simp
  then show ?case
    by (auto simp: step IH nth_list_update less_Suc_eq)
qed

lemma copy_rows_nth:
  "k \<le> length nb \<Longrightarrow>
     length (fold (\<lambda>y b. b[y := g (src ! y) (b ! y)]) [0..<k] nb) = length nb \<and>
     (\<forall>y < length nb. fold (\<lambda>y b. b[y := g (src ! y) (b ! y)]) [0..<k] nb ! y =
        (if y < k then g (src ! y) (nb ! y) else nb ! y))"
proof (induction k)
  case 0
  then show ?case by simp
next
  case (Suc k)
  then have IH: "length (fold (\<lambda>y b. b[y := g (src ! y) (b ! y)]) [0..<k] nb) = length nb"
    "\<And>y. y < length nb \<Longrightarrow> fold (\<lambda>y b. b[y := g (src ! y) (b ! y)]) [0..<k] nb ! y =
        (if y < k then g (src ! y) (nb ! y) else nb ! y)"
    by simp_all
  from Suc.prems have "k < length nb" by simp
  then show ?case
    by (auto simp: IH nth_list_update)
qed

lemma resizeBuffer_fields:
  "m_rows (resizeBuffer t r c) = r" "m_cols (resizeBuffer t r c) = c"
  by (simp_all add: resizeBuffer_def Let_def)

lemma resizeBuffer_buffer:
  "m_buffer (resizeBuffer t r c) =
     fold (\<lambda>y b. b[y := copyRow (nat (min (m_cols t) c)) (m_buffer t ! y) (b ! y)])
       [0..<nat (min (m_rows t) r)] (replicate (nat r) (replicate (nat c) TermChar))"
  by (simp add: resizeBuffer_def Let_def)

lemma resizeBuffer_cell:
  assumes "y < nat r" "x < nat c"
  shows "m_buffer (resizeBuffer t r c) ! y ! x =
     (if y < nat (m_rows t) \<and> x < nat (m_cols t) then m_buffer t ! y ! x else TermChar)"
    and "length (m_buffer (resizeBuffer t r c)) = nat r"
    and "length (m_buffer (resizeBuffer t r c) ! y) = nat c"
proof -
  define nb where "nb = replicate (nat r) (replicate (nat c) TermChar)"
  define k where "k = nat (min (m_rows t) r)"
  define n where "n = nat (min (m_cols t) c)"
  define copied where
    "copied = fold (\<lambda>y b. b[y := copyRow n (m_buffer t ! y) (b ! y)]) [0..<k] nb"
  have buf: "m_buffer (resizeBuffer t r c) = copied"
    unfolding copied_def n_def k_def nb_def by (rule resizeBuffer_buffer)
  have lnb: "length nb = nat r" and nby: "nb ! y = replicate (nat c) TermChar"
    using assms by (simp_all add: nb_def)
  have k: "k \<le> length nb" by (simp add: k_def lnb)
  from copy_rows_nth [OF k, of "copyRow n" "m_buffer t"]
  have lcopied: "length copied = length nb"
    and rows: "\<forall>y<length nb. copied ! y =
        (if y < k then copyRow n (m_buffer t ! y) (nb ! y) else nb ! y)"
    unfolding copied_def by blast+
  have row: "copied ! y =
      (if y < k then copyRow n (m_buffer t ! y) (replicate (nat c) TermChar)
       else replicate (nat c) TermChar)"
    using rows [rule_format, of y] assms by (simp add: lnb nby)
  have n: "n \<le> length (replicate (nat c) TermChar)" by (simp add: n_def)
  from copyRow_nth [OF n, of "m_buffer t ! y"]
  have lrow: "length (copyRow n (m_buffer t ! y) (replicate (nat c) TermChar)) = nat c"
    and cell: "copyRow n (m_buffer t ! y) (replicate (nat c) TermChar) ! x =
        (if x < n then m_buffer t ! y ! x else TermChar)"
    using assms by simp_all
  have ky: "y < k \<longleftrightarrow> y < nat (m_rows t)" using assms unfolding k_def by arith
  have nx: "x < n \<longleftrightarrow> x < nat (m_cols t)" using assms unfolding n_def by arith
  show "length (m_buffer (resizeBuffer t r c)) = nat r"
    by (simp add: buf lcopied lnb)
  show "length (m_buffer (resizeBuffer t r c) ! y) = nat c"
    by (simp add: buf row lrow)
  show "m_buffer (resizeBuffer t r c) ! y ! x =
     (if y < nat (m_rows t) \<and> x < nat (m_cols t) then m_buffer t ! y ! x else TermChar)"
    using assms by (simp add: buf row cell ky nx)
qed

lemma resizeBuffer_grid_ok:
  assumes "1 \<le> r" "1 \<le> c"
  shows "grid_ok (resizeBuffer t r c)"
proof -
  have pos: "0 < nat r" "0 < nat c" using assms by simp_all
  have len: "length (m_buffer (resizeBuffer t r c)) = nat r"
    using pos by (rule resizeBuffer_cell(2))
  have "\<forall>row \<in> set (m_buffer (resizeBuffer t r c)). length row = nat c"
  proof
    fix row assume "row \<in> set (m_buffer (resizeBuffer t r c))"
    then obtain y where y: "y < nat r" and row: "row = m_buffer (resizeBuffer t r c) ! y"
      by (auto simp: in_set_conv_nth len)
    from y pos(2) show "length row = nat c"
      unfolding row by (rule resizeBuffer_cell(3))
  qed
  then show ?thesis
    using assms len by (simp add: grid_ok_def resizeBuffer_fields)
qed

text \<open>
  A screen with content on both sides of column 40: forty letters \<open>A\<close> and twenty
  letters \<open>B\<close> typed on the first row of the initial screen.
\<close>

lemma typed_row_eq:
  "processOutput TerminalWidget (replicate 40 0x41 @ replicate 20 0x42) \<noteq> None"
  "grid_ok typed_row" "m_rows typed_row = 24" "m_cols typed_row = 80"
  "m_buffer typed_row ! 0 =
     replicate 40 (glyphCell TerminalWidget 0x41) @ replicate 20 (glyphCell TerminalWidget 0x42) @
     replicate 20 TermChar"
proof -
  let ?cs = "replicate 40 0x41 @ replicate 20 (0x42 :: byte)"
  have p: "\<forall>c\<in>set ?cs. printable c" by (simp add: printable_def)
  have "\<exists>t'. processOutput TerminalWidget ?cs = Some t' \<and>
     m_cursorX t' = m_cursorX TerminalWidget + int (length ?cs) \<and>
     m_cursorY t' = m_cursorY TerminalWidget \<and>
     m_buffer t' = (m_buffer TerminalWidget)[nat (m_cursorY TerminalWidget) :=
        take (nat (m_cursorX TerminalWidget)) (m_buffer TerminalWidget ! nat (m_cursorY TerminalWidget)) @
        map (\<lambda>c. glyphCell TerminalWidget (ucast c)) ?cs @
        drop (nat (m_cursorX TerminalWidget) + length ?cs)
          (m_buffer TerminalWidget ! nat (m_cursorY TerminalWidget))] \<and>
     m_escapeState t' = NoneState \<and> m_utf8Remaining t' = 0 \<and> grid_ok t' \<and>
     m_rows t' = m_rows TerminalWidget \<and> m_cols t' = m_cols TerminalWidget \<and>
     glyphCell t' = glyphCell TerminalWidget"
    using p by (rule put_run) (simp_all add: init_fields grid_ok_init)
  then obtain t' where t': "processOutput TerminalWidget ?cs = Some t'"
    "m_buffer t' = (m_buffer TerminalWidget)[nat (m_cursorY TerminalWidget) :=
        take (nat (m_cursorX TerminalWidget)) (m_buffer TerminalWidget ! nat (m_cursorY TerminalWidget)) @
        map (\<lambda>c. glyphCell TerminalWidget (ucast c)) ?cs @
        drop (nat (m_cursorX TerminalWidget) + length ?cs)
          (m_buffer TerminalWidget ! nat (m_cursorY TerminalWidget))]"
    "grid_ok t'" "m_rows t' = m_rows TerminalWidget" "m_cols t' = m_cols TerminalWidget"
    by blast
  have buf: "m_buffer TerminalWidget = replicate 24 (replicate 80 TermChar)"
    by (simp add: TerminalWidget_def)
  have tr: "typed_row = t'" by (simp add: typed_row_def t'(1))
  show "processOutput TerminalWidget ?cs \<noteq> None" by (simp add: t'(1))
  show "grid_ok typed_row" "m_rows typed_row = 24" "m_cols typed_row = 80"
    by (simp_all add: tr t' init_fields)
  show "m_buffer typed_row ! 0 =
     replicate 40 (glyphCell TerminalWidget 0x41) @ replicate 20 (glyphCell TerminalWidget 0x42) @
     replicate 20 TermChar"
    by (simp add: tr t'(2) init_fields buf)
qed

lemma typed_row_cells:
  "m_buffer typed_row ! 0 ! 7 = glyphCell TerminalWidget 0x41"
  "m_buffer typed_row ! 0 ! 39 = glyphCell TerminalWidget 0x41"
  "m_buffer typed_row ! 0 ! 40 = glyphCell TerminalWidget 0x42"
  "m_buffer typed_row ! 0 ! 52 = glyphCell TerminalWidget 0x42"
  by (simp_all add: typed_row_eq(5) nth_append)

text \<open>
  Claim C9. A grid of 24 rows and 80 columns resized to 24 rows of 40 columns and back to
  24 rows of 80 columns is again a grid of 24 by 80; in every row the cells of columns 0
  to 39 are the cells the grid had before, and the cells of columns 40 to 79 are default
  cells.
\<close>

theorem C9_resize_round_trip:
  assumes "grid_ok t" and "m_rows t = 24" and "m_cols t = 80"
  shows "grid_ok (resizeBuffer (resizeBuffer t 24 40) 24 80) \<and>
         m_rows (resizeBuffer (resizeBuffer t 24 40) 24 80) = 24 \<and>
         m_cols (resizeBuffer (resizeBuffer t 24 40) 24 80) = 80 \<and>
         (\<forall>y<24. \<forall>x<80. m_buffer (resizeBuffer (resizeBuffer t 24 40) 24 80) ! y ! x =
             (if x < 40 then m_buffer t ! y ! x else TermChar))"
proof (intro conjI allI impI)
  fix y x :: nat assume y: "y < 24" and x: "x < 80"
  let ?s = "resizeBuffer t 24 40"
  have outer: "m_buffer (resizeBuffer ?s 24 80) ! y ! x =
      (if y < nat (m_rows ?s) \<and> x < nat (m_cols ?s) then m_buffer ?s ! y ! x else TermChar)"
    using y x by (intro resizeBuffer_cell(1)) simp_all
  show "m_buffer (resizeBuffer ?s 24 80) ! y ! x = (if x < 40 then m_buffer t ! y ! x else TermChar)"
  proof (cases "x < 40")
    case True
    then have "m_buffer ?s ! y ! x =
      (if y < nat (m_rows t) \<and> x < nat (m_cols t) then m_buffer t ! y ! x else TermChar)"
      using y by (intro resizeBuffer_cell(1)) simp_all
    with True y show ?thesis
      by (simp add: outer resizeBuffer_fields assms)
  next
    case False
    then show ?thesis
      by (simp add: outer resizeBuffer_fields)
  qed
qed (simp_all add: resizeBuffer_grid_ok resizeBuffer_fields)

theorem C9_resize_round_trip_witness:
  "grid_ok typed_row \<and> m_rows typed_row = 24 \<and> m_cols typed_row = 80 \<and>
   character (m_buffer typed_row ! 0 ! 7) = 0x41 \<and>
   character (m_buffer typed_row ! 0 ! 39) = 0x41 \<and>
   character (m_buffer typed_row ! 0 ! 40) = 0x42 \<and>
   character (m_buffer typed_row ! 0 ! 52) = 0x42 \<and>
   m_buffer (resizeBuffer (resizeBuffer typed_row 24 40) 24 80) ! 0 ! 7 =
     m_buffer typed_row ! 0 ! 7 \<and>
   m_buffer (resizeBuffer (resizeBuffer typed_row 24 40) 24 80) ! 0 ! 39 =
     m_buffer typed_row ! 0 ! 39 \<and>
   character (m_buffer (resizeBuffer (resizeBuffer typed_row 24 40) 24 80) ! 0 ! 39) = 0x41 \<and>
   m_buffer (resizeBuffer (resizeBuffer typed_row 24 40) 24 80) ! 0 ! 40 = TermChar \<and>
   m_buffer (resizeBuffer (resizeBuffer typed_row 24 40) 24 80) ! 0 ! 52 = TermChar \<and>
   character TermChar = 0x20"
proof -
  note h = typed_row_eq(2,3,4)
  from C9_resize_round_trip [OF h] have
    "\<forall>y<24. \<forall>x<80. m_buffer (resizeBuffer (resizeBuffer typed_row 24 40) 24 80) ! y ! x =
             (if x < 40 then m_buffer typed_row ! y ! x else TermChar)"
    by blast
  from this [rule_format, of 0 7] this [rule_format, of 0 39] this [rule_format, of 0 40]
    this [rule_format, of 0 52] h
  show ?thesis
    by (simp add: typed_row_cells glyphCell_def TermChar_def)
qed


section \<open>UTF-8 encoding\<close>

lemma mod_offset:
  fixes n :: nat
  assumes "n < m"
  shows "(k * m + n) mod m = n"
  using assms by simp

lemma unat_byte_of_nat: "n < 256 \<Longrightarrow> unat (of_nat n :: byte) = n"
  by (simp add: unat_of_nat)

lemma cont_byte:
  assumes "n < 64"
  shows "((of_nat (0x80 + n) :: byte) AND 0xC0) = 0x80"
    and "unat ((of_nat (0x80 + n) :: byte) AND 0x3F) = n"
    and "((of_nat (0x80 + n) :: byte) AND 0x80) \<noteq> 0"
proof -
  have u: "unat (of_nat (0x80 + n) :: byte) = 0x80 + n"
    using assms by (intro unat_byte_of_nat) simp
  show "((of_nat (0x80 + n) :: byte) AND 0xC0) = 0x80"
    using assms unfolding byte_masks u by simp
  show "unat ((of_nat (0x80 + n) :: byte) AND 0x3F) = n"
    using assms mod_offset [of n 64 2] unfolding byte_masks u by simp
  show "((of_nat (0x80 + n) :: byte) AND 0x80) \<noteq> 0"
    unfolding byte_masks u by simp
qed

lemma lead2_byte:
  assumes "n < 32"
  shows "((of_nat (0xC0 + n) :: byte) AND 0xE0) = 0xC0"
    and "unat ((of_nat (0xC0 + n) :: byte) AND 0x1F) = n"
    and "((of_nat (0xC0 + n) :: byte) AND 0x80) \<noteq> 0"
    and "((of_nat (0xC0 + n) :: byte) AND 0xC0) \<noteq> 0x80"
proof -
  have u: "unat (of_nat (0xC0 + n) :: byte) = 0xC0 + n"
    using assms by (intro unat_byte_of_nat) simp
  show "((of_nat (0xC0 + n) :: byte) AND 0xE0) = 0xC0"
    using assms unfolding byte_masks u by simp
  show "unat ((of_nat (0xC0 + n) :: byte) AND 0x1F) = n"
    using assms mod_offset [of n 32 6] unfolding byte_masks u by simp
  show "((of_nat (0xC0 + n) :: byte) AND 0x80) \<noteq> 0"
    unfolding byte_masks u by simp
  show "((of_nat (0xC0 + n) :: byte) AND 0xC0) \<noteq> 0x80"
    unfolding byte_masks u by simp
qed

lemma lead3_byte:
  assumes "n < 16"
  shows "((of_nat (0xE0 + n) :: byte) AND 0xF0) = 0xE0"
    and "unat ((of_nat (0xE0 + n) :: byte) AND 0x0F) = n"
    and "((of_nat (0xE0 + n) :: byte) AND 0x80) \<noteq> 0"
    and "((of_nat (0xE0 + n) :: byte) AND 0xC0) \<noteq> 0x80"
    and "((of_nat (0xE0 + n) :: byte) AND 0xE0) \<noteq> 0xC0"
proof -
  have u: "unat (of_nat (0xE0 + n) :: byte) = 0xE0 + n"
    using assms by (intro unat_byte_of_nat) simp
  show "((of_nat (0xE0 + n) :: byte) AND 0xF0) = 0xE0"
    using assms unfolding byte_masks u by simp
  show "unat ((of_nat (0xE0 + n) :: byte) AND 0x0F) = n"
    using assms mod_offset [of n 16 14] unfolding byte_masks u by simp
  show "((of_nat (0xE0 + n) :: byte) AND 0x80) \<noteq> 0"
    unfolding byte_masks u by simp
  show "((of_nat (0xE0 + n) :: byte) AND 0xC0) \<noteq> 0x80"
    unfolding byte_masks u by simp
  show "((of_nat (0xE0 + n) :: byte) AND 0xE0) \<noteq> 0xC0"
    unfolding byte_masks u by simp
qed

lemma lead4_byte:
  assumes "n < 8"
  shows "((of_nat (0xF0 + n) :: byte) AND 0xF8) = 0xF0"
    and "unat ((of_nat (0xF0 + n) :: byte) AND 0x07) = n"
    and "((of_nat (0xF0 + n) :: byte) AND 0x80) \<noteq> 0"
    and "((of_nat (0xF0 + n) :: byte) AND 0xC0) \<noteq> 0x80"
    and "((of_nat (0xF0 + n) :: byte) AND 0xE0) \<noteq> 0xC0"
    and "((of_nat (0xF0 + n) :: byte) AND 0xF0) \<noteq> 0xE0"
proof -
  have u: "unat (of_nat (0xF0 + n) :: byte) = 0xF0 + n"
    using assms by (intro unat_byte_of_nat) simp
  show "((of_nat (0xF0 + n) :: byte) AND 0xF8) = 0xF0"
    using assms unfolding byte_masks u by simp
  show "unat ((of_nat (0xF0 + n) :: byte) AND 0x07) = n"
    using assms mod_offset [of n 8 30] unfolding byte_masks u by simp
  show "((of_nat (0xF0 + n) :: byte) AND 0x80) \<noteq> 0"
    unfolding byte_masks u by simp
  show "((of_nat (0xF0 + n) :: byte) AND 0xC0) \<noteq> 0x80"
    unfolding byte_masks u by simp
  show "((of_nat (0xF0 + n) :: byte) AND 0xE0) \<noteq> 0xC0"
    unfolding byte_masks u by simp
  show "((of_nat (0xF0 + n) :: byte) AND 0xF0) \<noteq> 0xE0"
    unfolding byte_masks u by simp
qed

lemma radix64:
  fixes cp :: nat
  shows "cp div 64 * 64 + cp mod 64 = cp"
    and "cp div 4096 * 4096 + cp div 64 mod 64 * 64 + cp mod 64 = cp"
    and "cp div 262144 * 262144 + cp div 4096 mod 64 * 4096 + cp div 64 mod 64 * 64 +
         cp mod 64 = cp"
proof -
  show a: "cp div 64 * 64 + cp mod 64 = cp" by simp
  have d1: "cp div 4096 = cp div 64 div 64" by (simp add: div_mult2_eq)
  have d2: "cp div 262144 = cp div 64 div 64 div 64" by (simp add: div_mult2_eq)
  have b: "cp div 64 div 64 * 64 + cp div 64 mod 64 = cp div 64" by simp
  have c: "cp div 64 div 64 div 64 * 64 + cp div 64 div 64 mod 64 = cp div 64 div 64" by simp
  show "cp div 4096 * 4096 + cp div 64 mod 64 * 64 + cp mod 64 = cp"
    unfolding d1 using a b by arith
  show "cp div 262144 * 262144 + cp div 4096 mod 64 * 4096 + cp div 64 mod 64 * 64 +
         cp mod 64 = cp"
    unfolding d1 d2 using a b c by arith
qed

lemma utf8_two:
  assumes "0x80 \<le> cp" "cp < 0x800"
  obtains b0 b1 where "utf8_encode cp = [b0, b1]"
    "(b0 AND 0xE0) = 0xC0" "(b0 AND 0x80) \<noteq> 0" "(b0 AND 0xC0) \<noteq> 0x80"
    "(b1 AND 0xC0) = 0x80"
    "unat (b0 AND 0x1F) * 64 + unat (b1 AND 0x3F) = cp"
proof -
  define b0 :: byte where "b0 = of_nat (0xC0 + cp div 64)"
  define b1 :: byte where "b1 = of_nat (0x80 + cp mod 64)"
  have n0: "cp div 64 < 32" using assms by simp
  have n1: "cp mod 64 < 64" by simp
  have enc: "utf8_encode cp = [b0, b1]"
    using assms by (simp add: utf8_encode_def b0_def b1_def)
  have sum: "unat (b0 AND 0x1F) * 64 + unat (b1 AND 0x3F) = cp"
    unfolding b0_def b1_def lead2_byte(2) [OF n0] cont_byte(2) [OF n1] by (rule radix64(1))
  show thesis
    by (rule that [OF enc lead2_byte(1,3,4) [OF n0, folded b0_def]
          cont_byte(1) [OF n1, folded b1_def] sum])
qed

lemma utf8_three:
  assumes "0x800 \<le> cp" "cp < 0x10000"
  obtains b0 b1 b2 where "utf8_encode cp = [b0, b1, b2]"
    "(b0 AND 0xF0) = 0xE0" "(b0 AND 0x80) \<noteq> 0" "(b0 AND 0xC0) \<noteq> 0x80" "(b0 AND 0xE0) \<noteq> 0xC0"
    "(b1 AND 0xC0) = 0x80" "(b2 AND 0xC0) = 0x80"
    "unat (b0 AND 0x0F) * 4096 + unat (b1 AND 0x3F) * 64 + unat (b2 AND 0x3F) = cp"
proof -
  define b0 :: byte where "b0 = of_nat (0xE0 + cp div 4096)"
  define b1 :: byte where "b1 = of_nat (0x80 + cp div 64 mod 64)"
  define b2 :: byte where "b2 = of_nat (0x80 + cp mod 64)"
  have n0: "cp div 4096 < 16" using assms by simp
  have n1: "cp div 64 mod 64 < 64" by simp
  have n2: "cp mod 64 < 64" by simp
  have enc: "utf8_encode cp = [b0, b1, b2]"
    using assms by (simp add: utf8_encode_def b0_def b1_def b2_def)
  have sum: "unat (b0 AND 0x0F) * 4096 + unat (b1 AND 0x3F) * 64 + unat (b2 AND 0x3F) = cp"
    unfolding b0_def b1_def b2_def lead3_byte(2) [OF n0] cont_byte(2) [OF n1] cont_byte(2) [OF n2]
    by (rule radix64(2))
  show thesis
    by (rule that [OF enc lead3_byte(1,3,4,5) [OF n0, folded b0_def]
          cont_byte(1) [OF n1, folded b1_def] cont_byte(1) [OF n2, folded b2_def] sum])
qed

lemma utf8_four:
  assumes "0x10000 \<le> cp" "cp \<le> 0x10FFFF"
  obtains b0 b1 b2 b3 where "utf8_encode cp = [b0, b1, b2, b3]"
    "(b0 AND 0xF8) = 0xF0" "(b0 AND 0x80) \<noteq> 0" "(b0 AND 0xC0) \<noteq> 0x80" "(b0 AND 0xE0) \<noteq> 0xC0"
    "(b0 AND 0xF0) \<noteq> 0xE0"
    "(b1 AND 0xC0) = 0x80" "(b2 AND 0xC0) = 0x80" "(b3 AND 0xC0) = 0x80"
    "unat (b0 AND 0x07) * 262144 + unat (b1 AND 0x3F) * 4096 + unat (b2 AND 0x3F) * 64 +
       unat (b3 AND 0x3F) = cp"
proof -
  define b0 :: byte where "b0 = of_nat (0xF0 + cp div 262144)"
  define b1 :: byte where "b1 = of_nat (0x80 + cp div 4096 mod 64)"
  define b2 :: byte where "b2 = of_nat (0x80 + cp div 64 mod 64)"
  define b3 :: byte where "b3 = of_nat (0x80 + cp mod 64)"
  have n0: "cp div 262144 < 8" using assms by simp
  have n1: "cp div 4096 mod 64 < 64" by simp
  have n2: "cp div 64 mod 64 < 64" by simp
  have n3: "cp mod 64 < 64" by simp
  have enc: "utf8_encode cp = [b0, b1, b2, b3]"
    using assms by (simp add: utf8_encode_def b0_def b1_def b2_def b3_def)
  have sum: "unat (b0 AND 0x07) * 262144 + unat (b1 AND 0x3F) * 4096 +
       unat (b2 AND 0x3F) * 64 + unat (b3 AND 0x3F) = cp"
    unfolding b0_def b1_def b2_def b3_def lead4_byte(2) [OF n0] cont_byte(2) [OF n1]
      cont_byte(2) [OF n2] cont_byte(2) [OF n3]
    by (rule radix64(3))
  show thesis
    by (rule that [OF enc lead4_byte(1,3,4,5,6) [OF n0, folded b0_def]
          cont_byte(1) [OF n1, folded b1_def] cont_byte(1) [OF n2, folded b2_def]
          cont_byte(1) [OF n3, folded b3_def] sum])
qed

lemma fromUtf8_encode:
  assumes "scalar cp" "0x80 \<le> cp"
  shows "fromUtf8 (utf8_encode cp) = utf16 cp"
proof -
  consider "cp < 0x800" | "0x800 \<le> cp" "cp < 0x10000" | "0x10000 \<le> cp" by linarith
  then show ?thesis
  proof cases
    case 1
    with assms(2) obtain b0 b1 where b: "utf8_encode cp = [b0, b1]"
      "(b0 AND 0xE0) = 0xC0" "(b0 AND 0x80) \<noteq> 0" "(b0 AND 0xC0) \<noteq> 0x80"
      "(b1 AND 0xC0) = 0x80"
      "unat (b0 AND 0x1F) * 64 + unat (b1 AND 0x3F) = cp"
      by (rule utf8_two)
    then show ?thesis using assms(2) by simp
  next
    case 2
    then obtain b0 b1 b2 where b: "utf8_encode cp = [b0, b1, b2]"
      "(b0 AND 0xF0) = 0xE0" "(b0 AND 0x80) \<noteq> 0" "(b0 AND 0xC0) \<noteq> 0x80"
      "(b0 AND 0xE0) \<noteq> 0xC0" "(b1 AND 0xC0) = 0x80" "(b2 AND 0xC0) = 0x80"
      "unat (b0 AND 0x0F) * 4096 + unat (b1 AND 0x3F) * 64 + unat (b2 AND 0x3F) = cp"
      by (rule utf8_three)
    then show ?thesis using assms(1) 2 by (simp add: scalar_def)
  next
    case 3
    with assms(1) have "cp \<le> 0x10FFFF" by (simp add: scalar_def)
    with 3 obtain b0 b1 b2 b3 where b: "utf8_encode cp = [b0, b1, b2, b3]"
      "(b0 AND 0xF8) = 0xF0" "(b0 AND 0x80) \<noteq> 0" "(b0 AND 0xC0) \<noteq> 0x80"
      "(b0 AND 0xE0) \<noteq> 0xC0" "(b0 AND 0xF0) \<noteq> 0xE0"
      "(b1 AND 0xC0) = 0x80" "(b2 AND 0xC0) = 0x80" "(b3 AND 0xC0) = 0x80"
      "unat (b0 AND 0x07) * 262144 + unat (b1 AND 0x3F) * 4096 + unat (b2 AND 0x3F) * 64 +
         unat (b3 AND 0x3F) = cp"
      by (rule utf8_four)
    then show ?thesis using assms(1) 3 by (simp add: scalar_def)
  qed
qed

section \<open>The byte decoder\<close>

lemma high_byte_facts:
  assumes "0x80 \<le> unat (c :: byte)"
  shows "sint c < 0" "c \<noteq> 0x0D" "c \<noteq> 0x0A" "c \<noteq> 0x08" "c \<noteq> 0x09" "c \<noteq> 0x07"
    "c \<noteq> 0x1B" "c \<noteq> 0x5B" "c \<noteq> 0x5D" "c \<noteq> 0x25" "c \<noteq> 0x3B" "c \<noteq> 0x3F" "c \<noteq> 0x20"
    "c \<noteq> 0x3E" "c \<noteq> 0x3D" "c \<noteq> 0x5C"
    "c \<noteq> 0x6D" "c \<noteq> 0x48" "c \<noteq> 0x66" "c \<noteq> 0x41" "c \<noteq> 0x42" "c \<noteq> 0x43" "c \<noteq> 0x44"
    "c \<noteq> 0x47" "c \<noteq> 0x4A" "c \<noteq> 0x4B" "c \<noteq> 0x73" "c \<noteq> 0x75" "c \<noteq> 0x6C" "c \<noteq> 0x68"
    "c \<noteq> 0x64"
proof -
  have "int (unat c) < 256" using unat_byte_less [of c] by (simp del: of_nat_unat)
  moreover have "sint c = int (unat c) - 256"
    using assms by (simp only: byte_sint) simp
  ultimately show "sint c < 0" by arith
qed (use assms in auto)

lemma feed_two:
  assumes "(b0 AND 0xE0) = 0xC0" "(b0 AND 0x80) \<noteq> 0" "(b0 AND 0xC0) \<noteq> 0x80"
    "(b1 AND 0xC0) = 0x80"
  shows "processOutput t [b0, b1] =
     (case processUtf8Sequence (t\<lparr>m_utf8Buffer := [b0, b1], m_utf8Remaining := 0\<rparr>) [b0, b1] of
        None \<Rightarrow> None
      | Some t2 \<Rightarrow> Some (t2\<lparr>m_utf8Buffer := []\<rparr>))"
  using assms by (simp add: processByte_def Let_def split: option.splits)

lemma feed_three:
  assumes "(b0 AND 0xF0) = 0xE0" "(b0 AND 0x80) \<noteq> 0" "(b0 AND 0xC0) \<noteq> 0x80"
    "(b0 AND 0xE0) \<noteq> 0xC0" "(b1 AND 0xC0) = 0x80" "(b2 AND 0xC0) = 0x80"
  shows "processOutput t [b0, b1, b2] =
     (case processUtf8Sequence (t\<lparr>m_utf8Buffer := [b0, b1, b2], m_utf8Remaining := 0\<rparr>) [b0, b1, b2] of
        None \<Rightarrow> None
      | Some t2 \<Rightarrow> Some (t2\<lparr>m_utf8Buffer := []\<rparr>))"
  using assms by (simp add: processByte_def Let_def split: option.splits)

lemma feed_four:
  assumes "(b0 AND 0xF8) = 0xF0" "(b0 AND 0x80) \<noteq> 0" "(b0 AND 0xC0) \<noteq> 0x80"
    "(b0 AND 0xE0) \<noteq> 0xC0" "(b0 AND 0xF0) \<noteq> 0xE0"
    "(b1 AND 0xC0) = 0x80" "(b2 AND 0xC0) = 0x80" "(b3 AND 0xC0) = 0x80"
  shows "processOutput t [b0, b1, b2, b3] =
     (case processUtf8Sequence (t\<lparr>m_utf8Buffer := [b0, b1, b2, b3], m_utf8Remaining := 0\<rparr>)
             [b0, b1, b2, b3] of
        None \<Rightarrow> None
      | Some t2 \<Rightarrow> Some (t2\<lparr>m_utf8Buffer := []\<rparr>))"
  using assms by (simp add: processByte_def Let_def split: option.splits)

lemma feed_encoded:
  assumes "scalar cp" "0x80 \<le> cp"
  shows "processOutput t (utf8_encode cp) =
     (case processUtf8Sequence (t\<lparr>m_utf8Buffer := utf8_encode cp, m_utf8Remaining := 0\<rparr>)
             (utf8_encode cp) of
        None \<Rightarrow> None
      | Some t2 \<Rightarrow> Some (t2\<lparr>m_utf8Buffer := []\<rparr>))"
proof -
  consider "cp < 0x800" | "0x800 \<le> cp" "cp < 0x10000" | "0x10000 \<le> cp" by linarith
  then show ?thesis
  proof cases
    case 1
    with assms(2) obtain b0 b1 where b: "utf8_encode cp = [b0, b1]"
      "(b0 AND 0xE0) = 0xC0" "(b0 AND 0x80) \<noteq> 0" "(b0 AND 0xC0) \<noteq> 0x80"
      "(b1 AND 0xC0) = 0x80"
      "unat (b0 AND 0x1F) * 64 + unat (b1 AND 0x3F) = cp"
      by (rule utf8_two)
    show ?thesis unfolding b(1) using b(2-5) by (rule feed_two)
  next
    case 2
    then obtain b0 b1 b2 where b: "utf8_encode cp = [b0, b1, b2]"
      "(b0 AND 0xF0) = 0xE0" "(b0 AND 0x80) \<noteq> 0" "(b0 AND 0xC0) \<noteq> 0x80"
      "(b0 AND 0xE0) \<noteq> 0xC0" "(b1 AND 0xC0) = 0x80" "(b2 AND 0xC0) = 0x80"
      "unat (b0 AND 0x0F) * 4096 + unat (b1 AND 0x3F) * 64 + unat (b2 AND 0x3F) = cp"
      by (rule utf8_three)
    show ?thesis unfolding b(1) using b(2-7) by (rule feed_three)
  next
    case 3
    with assms(1) have "cp \<le> 0x10FFFF" by (simp add: scalar_def)
    with 3 obtain b0 b1 b2 b3 where b: "utf8_encode cp = [b0, b1, b2, b3]"
      "(b0 AND 0xF8) = 0xF0" "(b0 AND 0x80) \<noteq> 0" "(b0 AND 0xC0) \<noteq> 0x80"
      "(b0 AND 0xE0) \<noteq> 0xC0" "(b0 AND 0xF0) \<noteq> 0xE0"
      "(b1 AND 0xC0) = 0x80" "(b2 AND 0xC0) = 0x80" "(b3 AND 0xC0) = 0x80"
      "unat (b0 AND 0x07) * 262144 + unat (b1 AND 0x3F) * 4096 + unat (b2 AND 0x3F) * 64 +
         unat (b3 AND 0x3F) = cp"
      by (rule utf8_four)
    show ?thesis unfolding b(1) using b(2-9) by (rule feed_four)
  qed
qed

section \<open>Wide glyphs\<close>

lemma processUtf8Sequence_eq:
  assumes "grid_ok t" "cursor_ok t" "fromUtf8 bs = ch # rest"
  shows "processUtf8Sequence t bs = Some
     (if isWide (unat ch) \<and> m_cursorX t + 1 < m_cols t then
        wrapLine (t\<lparr>m_buffer := (m_buffer t)[nat (m_cursorY t) :=
            (m_buffer t ! nat (m_cursorY t))
              [nat (m_cursorX t) := glyphCell t ch,
               nat (m_cursorX t + 1) :=
                 (m_buffer t ! nat (m_cursorY t) ! nat (m_cursorX t + 1))\<lparr>character := 0x20\<rparr>]],
          m_cursorX := m_cursorX t + 2\<rparr>)
      else
        wrapLine (t\<lparr>m_buffer := (m_buffer t)[nat (m_cursorY t) :=
            (m_buffer t ! nat (m_cursorY t))[nat (m_cursorX t) := glyphCell t ch]],
          m_cursorX := m_cursorX t + 1\<rparr>))"
proof -
  let ?y = "nat (m_cursorY t)" and ?x = "nat (m_cursorX t)"
  let ?row = "m_buffer t ! ?y"
  let ?B1 = "(m_buffer t)[?y := ?row[?x := glyphCell t ch]]"
  let ?t2 = "t\<lparr>m_buffer := ?B1, m_cursorX := m_cursorX t + 1\<rparr>"
  from assms have ylen: "?y < length (m_buffer t)" by (simp add: grid_ok_def cursor_ok_def)
  from assms have rowlen: "length ?row = nat (m_cols t)"
    by (intro grid_row_length) (simp_all add: cursor_ok_def)
  have store: "storeChar t ch = Some (t\<lparr>m_buffer := ?B1\<rparr>)"
    using inBounds_cursor [OF assms(1,2)] by (rule storeChar_eq)
  show ?thesis
  proof (cases "isWide (unat ch) \<and> m_cursorX t + 1 < m_cols t")
    case True
    then have x1: "nat (m_cursorX t + 1) < length ?row" "nat (m_cursorX t + 1) \<noteq> ?x"
      using assms(2) unfolding rowlen cursor_ok_def by linarith+
    have "m_cursorY t < int (length (m_buffer t))"
      "m_cursorX t + 1 < int (length ?row)"
      using ylen x1 assms(2) unfolding cursor_ok_def by linarith+
    then have inb: "inBounds ?t2 (m_cursorY ?t2) (m_cursorX ?t2)"
      using ylen assms(2) by (simp add: inBounds_def cursor_ok_def)
    have "updCell ?t2 (m_cursorY ?t2) (m_cursorX ?t2) (\<lambda>cell. cell\<lparr>character := 0x20\<rparr>) =
       Some (?t2\<lparr>m_buffer := (m_buffer t)[?y := ?row
              [?x := glyphCell t ch,
               nat (m_cursorX t + 1) := (?row ! nat (m_cursorX t + 1))\<lparr>character := 0x20\<rparr>]]\<rparr>)"
      using inb ylen x1 by (simp add: updCell_def)
    then show ?thesis
      using True assms(3) by (simp add: processUtf8Sequence_def store Let_def add.commute)
  next
    case False
    then show ?thesis
      using assms(3) by (auto simp add: processUtf8Sequence_def store Let_def)
  qed
qed

lemma utf16_bmp: "cp < 0x10000 \<Longrightarrow> utf16 cp = [of_nat cp] \<and> unat (of_nat cp :: QChar) = cp"
  by (simp add: utf16_def unat_of_nat)

lemma wideBmp_facts:
  assumes "wideBmp cp"
  shows "scalar cp" "0x80 \<le> cp" "cp < 0x10000" "isWide cp"
  using assms by (auto simp: wideBmp_def scalar_def isWide_def)

section \<open>Cursor sequences on the initial screen\<close>

lemma parse_1_80: "parseParams [0x31, 0x3B, 0x38, 0x30] = (False, [1, 80])"
  by (simp add: parseParams_def toInt_def trimmed_def decimal_def isDigit_def INT_MAX_def Let_def)

lemma parse_24_80: "parseParams [0x32, 0x34, 0x3B, 0x38, 0x30] = (False, [24, 80])"
  by (simp add: parseParams_def toInt_def trimmed_def decimal_def isDigit_def INT_MAX_def Let_def)

lemma parse_empty: "parseParams [] = (False, [0])"
  by (simp add: parseParams_def toInt_def trimmed_def decimal_def isDigit_def INT_MAX_def Let_def)

lemma csi_start:
  "m_escapeState t = NoneState \<Longrightarrow> m_utf8Remaining t = 0 \<Longrightarrow>
     processOutput t (0x1B # 0x5B # rest) =
     processOutput (t\<lparr>m_escapeSequence := [], m_escapeState := Bracket\<rparr>) rest"
  by (simp add: processByte_def processChar_def)

lemma cup_1_80:
  "processOutput TerminalWidget [0x1B, 0x5B, 0x31, 0x3B, 0x38, 0x30, 0x48] =
     Some (TerminalWidget\<lparr>m_escapeSequence := [0x31, 0x3B, 0x38, 0x30], m_cursorX := 79\<rparr>)"
  by (simp add: csi_start init_fields processByte_def processChar_def isParamStart_def
      processEscapeSequence_def parse_1_80 qBound_def)


lemma csi_s:
  "m_escapeState t = NoneState \<Longrightarrow> m_utf8Remaining t = 0 \<Longrightarrow>
     processOutput t [0x1B, 0x5B, 0x73] =
     Some (t\<lparr>m_escapeSequence := [], m_savedCursorX := m_cursorX t,
             m_savedCursorY := m_cursorY t, m_escapeState := NoneState\<rparr>)"
  by (simp add: csi_start processByte_def processChar_def isParamStart_def
      processEscapeSequence_def parse_empty)

lemma csi_u:
  "m_escapeState t = NoneState \<Longrightarrow> m_utf8Remaining t = 0 \<Longrightarrow>
     processOutput t [0x1B, 0x5B, 0x75] =
     Some (t\<lparr>m_escapeSequence := [], m_cursorX := m_savedCursorX t,
             m_cursorY := m_savedCursorY t, m_escapeState := NoneState\<rparr>)"
  by (simp add: csi_start processByte_def processChar_def isParamStart_def
      processEscapeSequence_def parse_empty)

lemma cup_24_80:
  "processOutput TerminalWidget [0x1B, 0x5B, 0x32, 0x34, 0x3B, 0x38, 0x30, 0x48] =
     Some (TerminalWidget\<lparr>m_escapeSequence := [0x32, 0x34, 0x3B, 0x38, 0x30],
              m_cursorY := 23, m_cursorX := 79\<rparr>)"
  by (simp add: csi_start init_fields processByte_def processChar_def isParamStart_def
      processEscapeSequence_def parse_24_80 qBound_def)

lemma wide_put:
  assumes "grid_ok t" "cursor_ok t" "wideBmp cp"
  shows "processUtf8Sequence t (utf8_encode cp) = Some
     (if m_cursorX t + 1 < m_cols t
      then wrapLine (t\<lparr>m_buffer := glyphAndBlankAt t (of_nat cp), m_cursorX := m_cursorX t + 2\<rparr>)
      else wrapLine (t\<lparr>m_buffer := glyphAt t (of_nat cp), m_cursorX := m_cursorX t + 1\<rparr>))"
proof -
  note w = wideBmp_facts [OF assms(3)]
  from utf16_bmp [OF w(3)] have u: "utf16 cp = [of_nat cp]" "unat (of_nat cp :: QChar) = cp"
    by simp_all
  have "fromUtf8 (utf8_encode cp) = of_nat cp # []"
    using fromUtf8_encode [OF w(1,2)] u(1) by simp
  from processUtf8Sequence_eq [OF assms(1,2) this] show ?thesis
    by (simp only: u(2) w(4) glyphAndBlankAt_def glyphAt_def simp_thms)
qed

text \<open>
  Claim C3, as amended. A scalar of the wide ranges of the Basic Multilingual Plane
  (U+3000 to U+9FFF, U+AC00 to U+D7AF, U+F900 to U+FAFF, U+FF00 to U+FFEF) is written
  with the cursor on a cell of the grid, at column \<open>x\<close>. The glyph is stored in the
  current cell under the current attributes. When \<open>x + 1\<close> is still a column of the row,
  the glyph of the next cell becomes a space and the cursor advances by two columns; if
  that reaches the row width the cursor goes to column 0 of the next row (\<open>nextRow\<close>:
  one row down, scrolling at the bottom). When \<open>x\<close> is the last column, no placeholder is
  written and the cursor goes to column 0 of the next row.
\<close>

theorem C3_wide_glyph:
  assumes "grid_ok t" and "cursor_ok t" and "wideBmp cp"
  shows "(m_cursorX t + 2 < m_cols t \<longrightarrow>
            processUtf8Sequence t (utf8_encode cp) =
              Some (t\<lparr>m_buffer := glyphAndBlankAt t (of_nat cp),
                      m_cursorX := m_cursorX t + 2\<rparr>)) \<and>
         (m_cursorX t + 2 = m_cols t \<longrightarrow>
            processUtf8Sequence t (utf8_encode cp) =
              Some (nextRow (t\<lparr>m_buffer := glyphAndBlankAt t (of_nat cp), m_cursorX := 0\<rparr>))) \<and>
         (m_cursorX t + 1 = m_cols t \<longrightarrow>
            processUtf8Sequence t (utf8_encode cp) =
              Some (nextRow (t\<lparr>m_buffer := glyphAt t (of_nat cp), m_cursorX := 0\<rparr>)))"
  by (simp add: wide_put [OF assms] wrapLine_def)

lemma cursor_ok_init: "cursor_ok (TerminalWidget\<lparr>m_cursorX := x\<rparr>) \<longleftrightarrow> 0 \<le> x \<and> x < 80"
  by (simp add: cursor_ok_def TerminalWidget_def)

lemma grid_ok_cursor: "grid_ok (t\<lparr>m_cursorX := x\<rparr>) = grid_ok t"
  "grid_ok (t\<lparr>m_escapeSequence := s\<rparr>) = grid_ok t"
  by (simp_all add: grid_ok_def)

theorem C3_wide_glyph_witness:
  "grid_ok (TerminalWidget\<lparr>m_cursorX := 5\<rparr>) \<and> cursor_ok (TerminalWidget\<lparr>m_cursorX := 5\<rparr>) \<and>
   grid_ok (TerminalWidget\<lparr>m_cursorX := 78\<rparr>) \<and> cursor_ok (TerminalWidget\<lparr>m_cursorX := 78\<rparr>) \<and>
   grid_ok (TerminalWidget\<lparr>m_cursorX := 79\<rparr>) \<and> cursor_ok (TerminalWidget\<lparr>m_cursorX := 79\<rparr>) \<and>
   wideBmp 0x4E2D \<and>
   processUtf8Sequence (TerminalWidget\<lparr>m_cursorX := 5\<rparr>) (utf8_encode 0x4E2D) =
     Some (TerminalWidget\<lparr>m_cursorX := 5,
       m_buffer := glyphAndBlankAt (TerminalWidget\<lparr>m_cursorX := 5\<rparr>) (of_nat 0x4E2D),
       m_cursorX := 5 + 2\<rparr>) \<and>
   processUtf8Sequence (TerminalWidget\<lparr>m_cursorX := 78\<rparr>) (utf8_encode 0x4E2D) =
     Some (nextRow (TerminalWidget\<lparr>m_cursorX := 78,
       m_buffer := glyphAndBlankAt (TerminalWidget\<lparr>m_cursorX := 78\<rparr>) (of_nat 0x4E2D),
       m_cursorX := 0\<rparr>)) \<and>
   processUtf8Sequence (TerminalWidget\<lparr>m_cursorX := 79\<rparr>) (utf8_encode 0x4E2D) =
     Some (nextRow (TerminalWidget\<lparr>m_cursorX := 79,
       m_buffer := glyphAt (TerminalWidget\<lparr>m_cursorX := 79\<rparr>) (of_nat 0x4E2D),
       m_cursorX := 0\<rparr>))"
proof -
  have g: "grid_ok (TerminalWidget\<lparr>m_cursorX := 5\<rparr>)" "grid_ok (TerminalWidget\<lparr>m_cursorX := 78\<rparr>)"
    "grid_ok (TerminalWidget\<lparr>m_cursorX := 79\<rparr>)"
    by (simp_all add: grid_ok_cursor grid_ok_init)
  have c: "cursor_ok (TerminalWidget\<lparr>m_cursorX := 5\<rparr>)" "cursor_ok (TerminalWidget\<lparr>m_cursorX := 78\<rparr>)"
    "cursor_ok (TerminalWidget\<lparr>m_cursorX := 79\<rparr>)"
    by (simp_all add: cursor_ok_init)
  have w: "wideBmp 0x4E2D" by (simp add: wideBmp_def)
  have cols: "m_cols TerminalWidget = 80" by (rule init_fields)
  from C3_wide_glyph [OF g(1) c(1) w] C3_wide_glyph [OF g(2) c(2) w]
    C3_wide_glyph [OF g(3) c(3) w] g c w
  show ?thesis by (simp add: cols)
qed

text \<open>
  The initial screen receives \<open>ESC [ 1 ; 8 0 H\<close>, which puts the cursor on the last
  column of row 0, and then the three bytes of U+4E2D. The cursor ends at column 0 of
  row 1, not two columns further, and the only cell written is the one at row 0, column
  79: no placeholder is stored.
\<close>

theorem C3_last_column_counterexample:
  "processOutput TerminalWidget [0x1B, 0x5B, 0x31, 0x3B, 0x38, 0x30, 0x48, 0xE4, 0xB8, 0xAD] \<noteq> None \<and>
   m_cursorX (the (processOutput TerminalWidget
      [0x1B, 0x5B, 0x31, 0x3B, 0x38, 0x30, 0x48, 0xE4, 0xB8, 0xAD])) = 0 \<and>
   m_cursorY (the (processOutput TerminalWidget
      [0x1B, 0x5B, 0x31, 0x3B, 0x38, 0x30, 0x48, 0xE4, 0xB8, 0xAD])) = 1 \<and>
   m_buffer (the (processOutput TerminalWidget
      [0x1B, 0x5B, 0x31, 0x3B, 0x38, 0x30, 0x48, 0xE4, 0xB8, 0xAD])) =
     (m_buffer TerminalWidget)[0 := (m_buffer TerminalWidget ! 0)
        [79 := glyphCell TerminalWidget 0x4E2D]]"
proof -
  let ?t1 = "TerminalWidget\<lparr>m_escapeSequence := [0x31, 0x3B, 0x38, 0x30], m_cursorX := 79\<rparr>"
  let ?t2 = "?t1\<lparr>m_utf8Buffer := [0xE4, 0xB8, 0xAD], m_utf8Remaining := 0\<rparr>"
  have split: "[0x1B, 0x5B, 0x31, 0x3B, 0x38, 0x30, 0x48, 0xE4, 0xB8, 0xAD] =
      [0x1B, 0x5B, 0x31, 0x3B, 0x38, 0x30, 0x48] @ [0xE4, 0xB8, 0xAD :: byte]" by simp
  have enc: "utf8_encode 0x4E2D = [0xE4, 0xB8, 0xAD]" by (simp add: utf8_encode_def)
  have w: "wideBmp 0x4E2D" by (simp add: wideBmp_def)
  have g2: "grid_ok ?t2" using grid_ok_init by (simp add: grid_ok_def)
  have c2: "cursor_ok ?t2" by (simp add: cursor_ok_def init_fields)
  have feed: "processOutput ?t1 [0xE4, 0xB8, 0xAD] =
      (case processUtf8Sequence ?t2 [0xE4, 0xB8, 0xAD] of
        None \<Rightarrow> None | Some t2 \<Rightarrow> Some (t2\<lparr>m_utf8Buffer := []\<rparr>))"
    by (rule feed_three) simp_all
  have put: "processUtf8Sequence ?t2 [0xE4, 0xB8, 0xAD] =
      Some (wrapLine (?t2\<lparr>m_buffer := glyphAt ?t2 (of_nat 0x4E2D), m_cursorX := m_cursorX ?t2 + 1\<rparr>))"
    using wide_put [OF g2 c2 w] by (simp add: enc init_fields)
  let ?t3 = "?t2\<lparr>m_buffer := glyphAt ?t2 (of_nat 0x4E2D), m_cursorX := m_cursorX ?t2 + 1\<rparr>"
  have g3: "grid_ok ?t3"
    unfolding glyphAt_def
    using grid_ok_update_cell [OF g2, where p = "m_pendingNewline ?t2" and cx = "m_cursorX ?t2 + 1"
        and y = "nat (m_cursorY ?t2)" and x = "nat (m_cursorX ?t2)"
        and v = "glyphCell ?t2 (of_nat 0x4E2D)"]
    by (simp add: grid_ok_def)
  have wrap: "wrapLine ?t3 = ?t3\<lparr>m_cursorX := 0, m_cursorY := m_cursorY ?t3 + 1\<rparr>"
    using g3 by (intro wrapLine_next) (simp_all add: init_fields)
  have "processOutput TerminalWidget [0x1B, 0x5B, 0x31, 0x3B, 0x38, 0x30, 0x48, 0xE4, 0xB8, 0xAD] =
      Some (?t3\<lparr>m_cursorX := 0, m_cursorY := m_cursorY ?t3 + 1, m_utf8Buffer := []\<rparr>)"
    unfolding split processOutput_append cup_1_80 option.case feed put wrap by simp
  then show ?thesis
    by (simp add: glyphAt_def glyphCell_def init_fields)
qed

text \<open>
  The last range of the width test, U+20000 to U+2FFFF, is compared with one UTF-16 code
  unit, which is below it: a scalar of that range is stored as its high surrogate and
  advances the cursor by one column.
\<close>

lemma qchar_below_extension: "\<not> (unat (ch :: QChar) \<ge> 0x20000 \<and> unat ch \<le> 0x2FFFF)"
  using unsigned_less [of ch, where 'a = nat] by simp

lemma extension_glyph_narrow:
  assumes "grid_ok t" "cursor_ok t" "m_cursorX t + 1 < m_cols t"
  shows "processUtf8Sequence t (utf8_encode 0x20000) =
     Some (t\<lparr>m_buffer := glyphAt t 0xD840, m_cursorX := m_cursorX t + 1\<rparr>)"
proof -
  have "fromUtf8 (utf8_encode 0x20000) = utf16 0x20000"
    by (rule fromUtf8_encode) (simp_all add: scalar_def)
  then have str: "fromUtf8 (utf8_encode 0x20000) = 0xD840 # [0xDC00]"
    by (simp add: utf16_def)
  have narrow: "\<not> isWide (unat (0xD840 :: QChar))" by (simp add: isWide_def)
  from processUtf8Sequence_eq [OF assms(1,2) str] narrow assms(3) show ?thesis
    by (simp add: glyphAt_def wrapLine_def)
qed

section \<open>Recovery of the byte decoder\<close>

lemma processChar_high_byte_idle:
  assumes "0x80 \<le> unat (c :: byte)"
  shows "\<exists>t'. processChar t c = Some t' \<and> m_utf8Remaining t' = m_utf8Remaining t \<and>
     m_utf8Buffer t' = m_utf8Buffer t \<and> m_buffer t' = m_buffer t \<and>
     m_cursorX t' = m_cursorX t \<and> m_cursorY t' = m_cursorY t"
proof -
  note hb = high_byte_facts [OF assms]
  have neg: "\<not> 32 \<le> sint c" "\<not> 48 \<le> sint c" using hb(1) by simp_all
  have reg: "\<And>u. processRegularChar u c = Some u"
    using hb neg by (simp add: processRegularChar_def)
  have esc: "\<And>u p. processEscapeSequence u c p = Some u"
    using hb by (simp add: processEscapeSequence_def split: prod.splits)
  show ?thesis
    using hb neg by (cases "m_escapeState t") (simp_all add: processChar_def reg esc isParamStart_def)
qed

text \<open>
  A continuation byte that arrives while no sequence is pending is handed to
  \<open>processChar\<close> as a byte of its own; this always yields a state, and neither the
  decoder, the grid nor the cursor changes. A byte that is no continuation byte and
  arrives while a sequence is pending is processed exactly as it would be from the state
  with the pending count reset and the buffered bytes discarded.
\<close>

lemma decoder_recovery:
  "(\<not> m_utf8Remaining t > 0 \<and> (c AND 0xC0) = 0x80 \<longrightarrow>
      processByte t c = processChar t c \<and>
      (\<exists>t'. processByte t c = Some t' \<and> m_utf8Remaining t' = m_utf8Remaining t \<and>
            m_utf8Buffer t' = m_utf8Buffer t \<and> m_buffer t' = m_buffer t \<and>
            m_cursorX t' = m_cursorX t \<and> m_cursorY t' = m_cursorY t)) \<and>
   (m_utf8Remaining t > 0 \<and> (c AND 0xC0) \<noteq> 0x80 \<longrightarrow>
      processByte t c = processByte (t\<lparr>m_utf8Remaining := 0, m_utf8Buffer := []\<rparr>) c)"
proof (intro conjI impI)
  assume h: "\<not> m_utf8Remaining t > 0 \<and> (c AND 0xC0) = 0x80"
  then have high: "0x80 \<le> unat c" by (simp add: byte_masks)
  then have "(c AND 0x80) \<noteq> 0" "(c AND 0xE0) \<noteq> 0xC0" "(c AND 0xF0) \<noteq> 0xE0" "(c AND 0xF8) \<noteq> 0xF0"
    using h by (simp_all add: byte_masks)
  with h show eq: "processByte t c = processChar t c"
    by (simp add: processByte_def)
  from processChar_high_byte_idle [OF high, of t]
  show "\<exists>t'. processByte t c = Some t' \<and> m_utf8Remaining t' = m_utf8Remaining t \<and>
            m_utf8Buffer t' = m_utf8Buffer t \<and> m_buffer t' = m_buffer t \<and>
            m_cursorX t' = m_cursorX t \<and> m_cursorY t' = m_cursorY t"
    unfolding eq by blast
next
  assume "m_utf8Remaining t > 0 \<and> (c AND 0xC0) \<noteq> 0x80"
  then show "processByte t c = processByte (t\<lparr>m_utf8Remaining := 0, m_utf8Buffer := []\<rparr>) c"
    by (simp add: processByte_def)
qed

text \<open>
  What a well-formed sequence leaves on the screen. From every state with the cursor on a
  cell of a grid, whatever the decoder holds, the bytes of the UTF-8 encoding of a scalar
  above U+007F store the first UTF-16 code unit of the scalar in the cell at the cursor,
  with the current attributes. Up to U+FFFF that code unit is the scalar; above, it is
  the high surrogate, and the low surrogate is dropped.
\<close>

lemma decoded_stored:
  assumes "scalar cp" "0x80 \<le> cp" "grid_ok t" "cursor_ok t" "utf16 cp = ch # rest"
  shows "processOutput t (utf8_encode cp) = Some
     ((if isWide (unat ch) \<and> m_cursorX t + 1 < m_cols t then
         wrapLine (t\<lparr>m_utf8Buffer := utf8_encode cp, m_utf8Remaining := 0,
                     m_buffer := glyphAndBlankAt t ch, m_cursorX := m_cursorX t + 2\<rparr>)
       else
         wrapLine (t\<lparr>m_utf8Buffer := utf8_encode cp, m_utf8Remaining := 0,
                     m_buffer := glyphAt t ch, m_cursorX := m_cursorX t + 1\<rparr>))
      \<lparr>m_utf8Buffer := []\<rparr>)"
proof -
  let ?u = "t\<lparr>m_utf8Buffer := utf8_encode cp, m_utf8Remaining := 0\<rparr>"
  from assms have u: "grid_ok ?u" "cursor_ok ?u" by (simp_all add: grid_ok_def cursor_ok_def)
  have str: "fromUtf8 (utf8_encode cp) = ch # rest"
    using fromUtf8_encode [OF assms(1,2)] assms(5) by simp
  have g: "glyphCell ?u = glyphCell t" by (rule ext) (simp add: glyphCell_def)
  from processUtf8Sequence_eq [OF u str] show ?thesis
    unfolding feed_encoded [OF assms(1,2)]
    by (simp add: g glyphAt_def glyphAndBlankAt_def)
qed

lemma four_byte_put:
  assumes "grid_ok t" "cursor_ok t" "m_cursorX t + 1 < m_cols t"
  shows "\<exists>t'. processOutput t (utf8_encode 0x1F600) = Some t' \<and>
     m_buffer t' = glyphAt t 0xD83D \<and> m_cursorX t' = m_cursorX t + 1 \<and>
     m_cursorY t' = m_cursorY t \<and> m_utf8Remaining t' = 0 \<and> m_utf8Buffer t' = []"
proof -
  have s: "scalar 0x1F600" "(0x80 :: nat) \<le> 0x1F600" by (simp_all add: scalar_def)
  have str: "utf16 0x1F600 = 0xD83D # [0xDE00]" by (simp add: utf16_def)
  have narrow: "\<not> isWide (unat (0xD83D :: QChar))" by (simp add: isWide_def)
  from decoded_stored [OF s assms(1,2) str] narrow assms(3) show ?thesis
    by (simp add: wrapLine_def)
qed

text \<open>
  Claim C5 at two runs the widget can receive. The scalar U+1F600 has the well-formed
  UTF-8 encoding \<open>F0 9F 98 80\<close> and the UTF-16 form \<open>D83D DE00\<close>. On the initial screen
  it is sent once after a stray continuation byte \<open>80\<close>, and once after the lead byte
  \<open>E4\<close> of a sequence of three bytes that is left pending. Both runs yield a state, the
  decoder is idle afterwards and the cursor has advanced by one column; the cell at the
  cursor holds U+D83D, the high surrogate alone, which is not the scalar that was sent,
  and the cell to its right is still a default cell.
\<close>

theorem C5_four_byte_after_malformed:
  "utf8_encode 0x1F600 = [0xF0, 0x9F, 0x98, 0x80] \<and> utf16 0x1F600 = [0xD83D, 0xDE00] \<and>
   processOutput TerminalWidget [0x80, 0xF0, 0x9F, 0x98, 0x80] \<noteq> None \<and>
   m_buffer stray_then_four = glyphAt TerminalWidget 0xD83D \<and>
   character (m_buffer stray_then_four ! 0 ! 0) = 0xD83D \<and>
   m_buffer stray_then_four ! 0 ! 1 = TermChar \<and>
   m_cursorX stray_then_four = 1 \<and> m_cursorY stray_then_four = 0 \<and>
   m_utf8Remaining stray_then_four = 0 \<and> m_utf8Buffer stray_then_four = [] \<and>
   processOutput TerminalWidget [0xE4, 0xF0, 0x9F, 0x98, 0x80] \<noteq> None \<and>
   m_buffer aborted_then_four = glyphAt TerminalWidget 0xD83D \<and>
   character (m_buffer aborted_then_four ! 0 ! 0) = 0xD83D \<and>
   m_buffer aborted_then_four ! 0 ! 1 = TermChar \<and>
   m_cursorX aborted_then_four = 1 \<and> m_cursorY aborted_then_four = 0 \<and>
   m_utf8Remaining aborted_then_four = 0 \<and> m_utf8Buffer aborted_then_four = []"
proof -
  let ?p = "TerminalWidget\<lparr>m_utf8Remaining := 2, m_utf8Buffer := [0xE4]\<rparr>"
  have enc: "utf8_encode 0x1F600 = [0xF0, 0x9F, 0x98, 0x80]"
    by (simp add: utf8_encode_def)
  have str: "utf16 0x1F600 = [0xD83D, 0xDE00]" by (simp add: utf16_def)
  have stray: "processByte TerminalWidget 0x80 = Some TerminalWidget"
    by (simp add: processByte_def processChar_def processRegularChar_def init_fields)
  have lead: "processByte TerminalWidget 0xE4 = Some ?p"
    by (simp add: processByte_def init_fields)
  have g: "grid_ok TerminalWidget" "cursor_ok TerminalWidget"
    "m_cursorX TerminalWidget + 1 < m_cols TerminalWidget"
    by (simp_all add: grid_ok_init cursor_ok_def init_fields)
  have gp: "grid_ok ?p" "cursor_ok ?p" "m_cursorX ?p + 1 < m_cols ?p"
    using g by (simp_all add: grid_ok_def cursor_ok_def)
  have same: "glyphAt ?p 0xD83D = glyphAt TerminalWidget 0xD83D"
    by (simp add: glyphAt_def glyphCell_def)
  have cell: "glyphAt TerminalWidget 0xD83D ! 0 ! 0 = glyphCell TerminalWidget 0xD83D"
    "glyphAt TerminalWidget 0xD83D ! 0 ! 1 = TermChar"
    by (simp_all add: glyphAt_def init_fields TerminalWidget_def)
  from four_byte_put [OF g] obtain t1 where t1:
    "processOutput TerminalWidget (utf8_encode 0x1F600) = Some t1"
    "m_buffer t1 = glyphAt TerminalWidget 0xD83D" "m_cursorX t1 = m_cursorX TerminalWidget + 1"
    "m_cursorY t1 = m_cursorY TerminalWidget" "m_utf8Remaining t1 = 0" "m_utf8Buffer t1 = []"
    by blast
  from four_byte_put [OF gp] obtain t2 where t2:
    "processOutput ?p (utf8_encode 0x1F600) = Some t2"
    "m_buffer t2 = glyphAt ?p 0xD83D" "m_cursorX t2 = m_cursorX ?p + 1"
    "m_cursorY t2 = m_cursorY ?p" "m_utf8Remaining t2 = 0" "m_utf8Buffer t2 = []"
    by blast
  have r1: "processOutput TerminalWidget [0x80, 0xF0, 0x9F, 0x98, 0x80] = Some t1"
    using t1(1) unfolding enc by (simp add: stray)
  have r2: "processOutput TerminalWidget [0xE4, 0xF0, 0x9F, 0x98, 0x80] = Some t2"
    using t2(1) unfolding enc by (simp add: lead)
  have s1: "stray_then_four = t1" unfolding stray_then_four_def r1 by simp
  have s2: "aborted_then_four = t2" unfolding aborted_then_four_def r2 by simp
  show ?thesis
    unfolding s1 s2 r1 r2 t1(2-) t2(2-) same cell
    by (simp add: enc str glyphCell_def init_fields)
qed

section \<open>Save, shrink, restore\<close>

lemma saved_corner_eq:
  "processOutput TerminalWidget
     [0x1B, 0x5B, 0x32, 0x34, 0x3B, 0x38, 0x30, 0x48, 0x1B, 0x5B, 0x73] \<noteq> None"
  "m_cursorX saved_corner = 79" "m_cursorY saved_corner = 23"
  "m_savedCursorX saved_corner = 79" "m_savedCursorY saved_corner = 23"
  "m_escapeState saved_corner = NoneState" "m_utf8Remaining saved_corner = 0"
  "m_rows saved_corner = 24" "m_cols saved_corner = 80"
proof -
  let ?t1 = "TerminalWidget\<lparr>m_escapeSequence := [0x32, 0x34, 0x3B, 0x38, 0x30],
              m_cursorY := 23, m_cursorX := 79\<rparr>"
  have split: "[0x1B, 0x5B, 0x32, 0x34, 0x3B, 0x38, 0x30, 0x48, 0x1B, 0x5B, 0x73] =
      [0x1B, 0x5B, 0x32, 0x34, 0x3B, 0x38, 0x30, 0x48] @ [0x1B, 0x5B, 0x73 :: byte]" by simp
  have s: "processOutput ?t1 [0x1B, 0x5B, 0x73] =
     Some (?t1\<lparr>m_escapeSequence := [], m_savedCursorX := m_cursorX ?t1,
             m_savedCursorY := m_cursorY ?t1, m_escapeState := NoneState\<rparr>)"
    by (rule csi_s) (simp_all add: init_fields)
  have run: "processOutput TerminalWidget
     [0x1B, 0x5B, 0x32, 0x34, 0x3B, 0x38, 0x30, 0x48, 0x1B, 0x5B, 0x73] =
     Some (?t1\<lparr>m_escapeSequence := [], m_savedCursorX := m_cursorX ?t1,
             m_savedCursorY := m_cursorY ?t1, m_escapeState := NoneState\<rparr>)"
    unfolding split processOutput_append cup_24_80 option.case by (rule s)
  then show "processOutput TerminalWidget
     [0x1B, 0x5B, 0x32, 0x34, 0x3B, 0x38, 0x30, 0x48, 0x1B, 0x5B, 0x73] \<noteq> None" by simp
  show "m_cursorX saved_corner = 79" "m_cursorY saved_corner = 23"
    "m_savedCursorX saved_corner = 79" "m_savedCursorY saved_corner = 23"
    "m_escapeState saved_corner = NoneState" "m_utf8Remaining saved_corner = 0"
    "m_rows saved_corner = 24" "m_cols saved_corner = 80"
    unfolding saved_corner_def run by (simp_all add: init_fields)
qed

lemma shrunk_eq:
  "grid_ok shrunk" "m_rows shrunk = 1" "m_cols shrunk = 1"
  "m_cursorX shrunk = 0" "m_cursorY shrunk = 0"
  "m_savedCursorX shrunk = 79" "m_savedCursorY shrunk = 23"
  "m_escapeState shrunk = NoneState" "m_utf8Remaining shrunk = 0"
  "length (m_buffer shrunk) = 1" "length (m_buffer shrunk ! 0) = 1"
proof -
  show "grid_ok shrunk" unfolding shrunk_def by (rule resizeBuffer_grid_ok) simp_all
  show "length (m_buffer shrunk) = 1"
    unfolding shrunk_def using resizeBuffer_cell(2) [of 0 1 0 1 saved_corner] by simp
  show "length (m_buffer shrunk ! 0) = 1"
    unfolding shrunk_def using resizeBuffer_cell(3) [of 0 1 0 1 saved_corner] by simp
  show "m_rows shrunk = 1" "m_cols shrunk = 1"
    "m_cursorX shrunk = 0" "m_cursorY shrunk = 0"
    "m_savedCursorX shrunk = 79" "m_savedCursorY shrunk = 23"
    "m_escapeState shrunk = NoneState" "m_utf8Remaining shrunk = 0"
    unfolding shrunk_def by (simp_all add: resizeBuffer_def Let_def saved_corner_eq)
qed

text \<open>
  Claim C2 at a run the widget can receive. The cursor is saved at row 23, column 79 of
  the initial screen; after the resize to one row of one column the grid has one cell
  and the cursor is on it; the restore then puts the cursor back at row 23,
  column 79, outside the grid of one cell, and the next printable character writes
  outside the buffer.
\<close>

theorem C2_restore_after_shrink:
  "processOutput TerminalWidget
     [0x1B, 0x5B, 0x32, 0x34, 0x3B, 0x38, 0x30, 0x48, 0x1B, 0x5B, 0x73] \<noteq> None \<and>
   length (m_buffer shrunk) = 1 \<and> length (m_buffer shrunk ! 0) = 1 \<and> cursor_ok shrunk \<and>
   processOutput shrunk [0x1B, 0x5B, 0x75] \<noteq> None \<and>
   m_rows restored = 1 \<and> m_cols restored = 1 \<and>
   m_cursorX restored = 79 \<and> m_cursorY restored = 23 \<and>
   \<not> cursor_ok restored \<and>
   processOutput restored [0x41] = None"
proof -
  have u: "processOutput shrunk [0x1B, 0x5B, 0x75] =
     Some (shrunk\<lparr>m_escapeSequence := [], m_cursorX := m_savedCursorX shrunk,
             m_cursorY := m_savedCursorY shrunk, m_escapeState := NoneState\<rparr>)"
    by (rule csi_u) (simp_all add: shrunk_eq)
  have r: "restored = shrunk\<lparr>m_escapeSequence := [], m_cursorX := 79,
             m_cursorY := 23, m_escapeState := NoneState\<rparr>"
    unfolding restored_def u by (simp add: shrunk_eq)
  have out: "\<not> inBounds (restored\<lparr>m_pendingNewline := False\<rparr>) 23 79"
    by (simp add: inBounds_def r shrunk_eq)
  have "processOutput restored [0x41] = None"
    using out
    by (simp add: processByte_def processChar_def processRegularChar_def storeChar_def
        updCell_def r shrunk_eq)
  moreover have "cursor_ok shrunk" by (simp add: cursor_ok_def shrunk_eq)
  moreover have "\<not> cursor_ok restored" by (simp add: cursor_ok_def r shrunk_eq)
  ultimately show ?thesis
    using saved_corner_eq(1) u by (simp add: r shrunk_eq)
qed

end
